theory Spec2Isabelle
  imports Main "HOL-Library.AList"
begin

chapter \<open>The LLM usage recorder, the message compactor and the history limiter\<close>

text \<open>
  A shallow embedding of \<^verbatim>\<open>src/agents/pi-embedded-runner/history.ts\<close> and of the
  TypeScript module carried in \<^verbatim>\<open>scripts/check-llm-usage.sh\<close> (the usage logger with its
  loop detector and message analyzer, and \<^verbatim>\<open>compactMessages\<close>).
\<close>

section \<open>JavaScript strings and values\<close>

text \<open>
  A JavaScript string is a sequence of UTF-16 code units; \<^verbatim>\<open>length\<close>, \<^verbatim>\<open>slice\<close>,
  \<^verbatim>\<open>+\<close> and \<^verbatim>\<open>===\<close> work on code units. A string is therefore a list of code units,
  each a natural number. \<open>utf16\<close> turns an ASCII literal into its code units.
\<close>

type_synonym jsstring = "nat list"

definition utf16 :: "string \<Rightarrow> jsstring" where
  "utf16 s = map of_char s"

text \<open>
  The values the modules inspect at run time (\<^verbatim>\<open>unknown\<close> in the source). Numbers that
  occur inside messages are never computed with, so integers stand for them. An object
  is the list of its own enumerable properties in enumeration order.
\<close>

datatype jsval =
    JUndefined
  | JNull
  | JBool bool
  | JNum int
  | JStr jsstring
  | JArr "jsval list"
  | JObj "(jsstring \<times> jsval) list"

datatype js_error = TypeError

text \<open>\<^verbatim>\<open>!v\<close>: the falsy values are undefined, null, false, 0 and the empty string.\<close>

fun falsy :: "jsval \<Rightarrow> bool" where
  "falsy JUndefined = True"
| "falsy JNull = True"
| "falsy (JBool b) = (\<not> b)"
| "falsy (JNum n) = (n = 0)"
| "falsy (JStr s) = (s = [])"
| "falsy (JArr xs) = False"
| "falsy (JObj kvs) = False"

text \<open>\<^verbatim>\<open>typeof v === "object"\<close> holds of null, of arrays and of objects.\<close>

fun typeofObject :: "jsval \<Rightarrow> bool" where
  "typeofObject JNull = True"
| "typeofObject (JArr xs) = True"
| "typeofObject (JObj kvs) = True"
| "typeofObject v = False"

fun isArray :: "jsval \<Rightarrow> bool" where
  "isArray (JArr xs) = True"
| "isArray v = False"

text \<open>
  Reading one of the properties \<^verbatim>\<open>role\<close>, \<^verbatim>\<open>content\<close>, \<^verbatim>\<open>text\<close>, \<^verbatim>\<open>messages\<close>:
  an object gives the property or undefined, a primitive or an array gives undefined
  (none of these names is a property of an array, a string, a number or a boolean), and
  reading a property of null or undefined throws a TypeError. \<open>propOf\<close> is the read where the
  source has already excluded null and undefined; \<open>getProp\<close> is the unguarded read.
\<close>

fun propOf :: "jsval \<Rightarrow> jsstring \<Rightarrow> jsval" where
  "propOf (JObj kvs) k = (case map_of kvs k of Some v \<Rightarrow> v | None \<Rightarrow> JUndefined)"
| "propOf v k = JUndefined"

fun nullish :: "jsval \<Rightarrow> bool" where
  "nullish JUndefined = True"
| "nullish JNull = True"
| "nullish v = False"

definition getProp :: "jsval \<Rightarrow> jsstring \<Rightarrow> js_error + jsval" where
  "getProp v k = (if nullish v then Inl TypeError else Inr (propOf v k))"

text \<open>Decimal digits of a natural number, as template literals print a count.\<close>

fun showNat :: "nat \<Rightarrow> jsstring" where
  "showNat n = (if n < 10 then [48 + n] else showNat (n div 10) @ [48 + n mod 10])"

text \<open>
  \<^verbatim>\<open>{ ...o, k: v }\<close> for an object \<open>o\<close>: the properties of \<open>o\<close> in their order, with
  \<open>k\<close> set to \<open>v\<close> in place when \<open>o\<close> has it and appended otherwise. The source
  spreads objects only; an array or a string would spread its indices, another primitive
  nothing.
\<close>

fun spreadWith :: "jsval \<Rightarrow> jsstring \<Rightarrow> jsval \<Rightarrow> jsval" where
  "spreadWith (JObj kvs) k v = JObj (AList.update k v kvs)"
| "spreadWith (JArr xs) k v =
     JObj (AList.update k v (zip (map showNat [0..<length xs]) xs))"
| "spreadWith (JStr s) k v =
     JObj (AList.update k v (zip (map showNat [0..<length s]) (map (\<lambda>c. JStr [c]) s)))"
| "spreadWith w k v = JObj [(k, v)]"

definition showInt :: "int \<Rightarrow> jsstring" where
  "showInt i = (if i < 0 then 45 # showNat (nat (- i)) else showNat (nat i))"

fun js_join :: "jsstring \<Rightarrow> jsstring list \<Rightarrow> jsstring" where
  "js_join sep [] = []"
| "js_join sep [p] = p"
| "js_join sep (p # q # ps) = p @ sep @ js_join sep (q # ps)"

text \<open>\<^verbatim>\<open>s.split(c)\<close> for a separator of one code unit.\<close>

fun js_split :: "nat \<Rightarrow> jsstring \<Rightarrow> jsstring list" where
  "js_split sep [] = [[]]"
| "js_split sep (c # cs) =
     (if c = sep then [] # js_split sep cs
      else (case js_split sep cs of
              [] \<Rightarrow> [[c]]
            | p # ps \<Rightarrow> (c # p) # ps))"

text \<open>
  Lowercasing of the letters A to Z, other code units left as they are. This is how a
  regular expression with the flag \<^verbatim>\<open>i\<close> (and without \<^verbatim>\<open>u\<close>) compares an ASCII
  letter of the pattern: a code unit outside ASCII never matches one inside.
  \<^verbatim>\<open>String.prototype.toLowerCase\<close> itself follows the Unicode tables of the runtime,
  which are no part of the repository; the functions that call it take it as the
  parameter \<open>toLowerCase\<close>. On a string of ASCII code units it is \<open>asciiLower\<close>.
\<close>

definition asciiLower :: "jsstring \<Rightarrow> jsstring" where
  "asciiLower s = map (\<lambda>c. if 65 \<le> c \<and> c \<le> 90 then c + 32 else c) s"

text \<open>White space and line terminators, which \<^verbatim>\<open>trim\<close> removes at both ends.\<close>

definition isWhiteSpace :: "nat \<Rightarrow> bool" where
  "isWhiteSpace c \<longleftrightarrow>
     c \<in> {9, 10, 11, 12, 13, 32, 160, 0x1680, 0x2028, 0x2029, 0x202F, 0x205F, 0x3000, 0xFEFF}
     \<or> (0x2000 \<le> c \<and> c \<le> 0x200A)"

definition trim :: "jsstring \<Rightarrow> jsstring" where
  "trim s = rev (dropWhile isWhiteSpace (rev (dropWhile isWhiteSpace s)))"

definition isDigit :: "nat \<Rightarrow> bool" where
  "isDigit c \<longleftrightarrow> 48 \<le> c \<and> c \<le> 57"

text \<open>
  A number is a double. \<open>toDouble n\<close> is the double nearest to the natural number \<open>n\<close>
  (ties to the even significand), \<open>None\<close> when that is beyond the largest double: a
  number with at most 53 bits is exact; a longer one keeps its 53 leading bits, rounded.
\<close>

fun bitLength :: "nat \<Rightarrow> nat" where
  "bitLength n = (if n = 0 then 0 else Suc (bitLength (n div 2)))"

definition toDouble :: "nat \<Rightarrow> nat option" where
  "toDouble n =
     (if bitLength n \<le> 53 then Some n
      else
        (let e = bitLength n - 53;
             q = n div 2 ^ e;
             r = n mod 2 ^ e;
             half = 2 ^ (e - 1);
             m = (if half < r \<or> (r = half \<and> odd q) then q + 1 else q);
             v = m * 2 ^ e
         in if 2 ^ 1024 \<le> v then None else Some v))"

text \<open>
  \<^verbatim>\<open>Number.parseInt(s, 10)\<close> on a trimmed string: an optional sign, then the longest run of
  decimal digits; NaN when there is no digit, and otherwise the double of the integer
  the digits denote, an infinity when that is out of range. (The language lets an
  implementation zero the digits after the twentieth; the model keeps them, as V8 does.)
\<close>

datatype jsnum = NaN | Finite int | PosInfinity | NegInfinity

fun digitsValue :: "nat \<Rightarrow> jsstring \<Rightarrow> nat" where
  "digitsValue acc [] = acc"
| "digitsValue acc (c # cs) = digitsValue (10 * acc + (c - 48)) cs"

definition parseDigits :: "jsstring \<Rightarrow> nat option" where
  "parseDigits s = (let ds = takeWhile isDigit s in if ds = [] then None else Some (digitsValue 0 ds))"

definition signedDouble :: "bool \<Rightarrow> nat \<Rightarrow> jsnum" where
  "signedDouble negative n =
     (case toDouble n of
        None \<Rightarrow> (if negative then NegInfinity else PosInfinity)
      | Some v \<Rightarrow> Finite (if negative then - int v else int v))"

fun parseInt10 :: "jsstring \<Rightarrow> jsnum" where
  "parseInt10 [] = NaN"
| "parseInt10 (c # cs) =
     (if c = 45 then (case parseDigits cs of None \<Rightarrow> NaN | Some n \<Rightarrow> signedDouble True n)
      else if c = 43 then (case parseDigits cs of None \<Rightarrow> NaN | Some n \<Rightarrow> signedDouble False n)
      else (case parseDigits (c # cs) of None \<Rightarrow> NaN | Some n \<Rightarrow> signedDouble False n))"

section \<open>history.ts\<close>

subsection \<open>stripThreadSuffix\<close>

text \<open>
  \<^verbatim>\<open>THREAD_SUFFIX_REGEX = /^(.*)(?::(?:thread|topic):\d+)$/i\<close>. The value matches when it
  ends in a colon, the word thread or topic in any letter case, a colon and at least one
  decimal digit, and what stands before holds no line terminator (the dot does not match
  one). The digits hold no colon, so the split is unique; the function gives group 1.
\<close>

definition isLineTerminator :: "nat \<Rightarrow> bool" where
  "isLineTerminator c \<longleftrightarrow> c \<in> {10, 13, 0x2028, 0x2029}"

definition threadSuffixMatch :: "jsstring \<Rightarrow> jsstring option" where
  "threadSuffixMatch v =
     (let r = rev v;
          digits = takeWhile isDigit r;
          rest = dropWhile isDigit r;
          viaThread = rev (drop 8 rest);
          viaTopic = rev (drop 7 rest)
      in if digits = [] then None
         else if asciiLower (take 8 rest) = rev (utf16 '':thread:'')
                 \<and> \<not> list_ex isLineTerminator viaThread then Some viaThread
         else if asciiLower (take 7 rest) = rev (utf16 '':topic:'')
                 \<and> \<not> list_ex isLineTerminator viaTopic then Some viaTopic
         else None)"

definition stripThreadSuffix :: "jsstring \<Rightarrow> jsstring" where
  "stripThreadSuffix v = (case threadSuffixMatch v of Some g \<Rightarrow> g | None \<Rightarrow> v)"

subsection \<open>limitHistoryTurns\<close>

text \<open>
  An \<^verbatim>\<open>AgentMessage\<close> is an object with a \<^verbatim>\<open>role\<close>; the limiter reads nothing else of it,
  so the remaining fields are the record's extension. \<^verbatim>\<open>limit: number | undefined\<close> is an
  optional integer: a limit counts turns, and NaN, fractions and the infinities are left
  out of the model.

  \<open>scanTurns messages limit n userCount lastUserIndex\<close> is the \<^verbatim>\<open>for\<close> loop about to test
  \<^verbatim>\<open>i >= 0\<close> with \<open>i = n - 1\<close>: at \<open>n = 0\<close> the loop is over and the function returns
  \<^verbatim>\<open>messages\<close>; at \<open>Suc i\<close> the body runs on index \<open>i\<close>.
\<close>

record agent_message =
  role :: jsstring

fun scanTurns ::
  "'a agent_message_scheme list \<Rightarrow> int \<Rightarrow> nat \<Rightarrow> int \<Rightarrow> nat \<Rightarrow> 'a agent_message_scheme list" where
  "scanTurns messages limit 0 userCount lastUserIndex = messages"
| "scanTurns messages limit (Suc i) userCount lastUserIndex =
     (if role (messages ! i) = utf16 ''user'' then
        (if userCount + 1 > limit then drop lastUserIndex messages
         else scanTurns messages limit i (userCount + 1) i)
      else scanTurns messages limit i userCount lastUserIndex)"

definition limitHistoryTurns ::
  "'a agent_message_scheme list \<Rightarrow> int option \<Rightarrow> 'a agent_message_scheme list" where
  "limitHistoryTurns messages limit =
     (case limit of
        None \<Rightarrow> messages
      | Some l \<Rightarrow>
          if l = 0 \<or> l \<le> 0 \<or> length messages = 0 then messages
          else scanTurns messages l (length messages) 0 (length messages))"

subsection \<open>getHistoryLimitFromSessionKey\<close>

text \<open>
  The part of \<^verbatim>\<open>OpenClawConfig\<close> the lookup reads: \<^verbatim>\<open>channels\<close>, a dictionary from provider
  ids to entries with optional \<^verbatim>\<open>historyLimit\<close>, \<^verbatim>\<open>dmHistoryLimit\<close> and \<^verbatim>\<open>dms\<close>, the
  last a dictionary from user ids to entries with an optional \<^verbatim>\<open>historyLimit\<close>.
\<close>

record dm_entry =
  dm_historyLimit :: "int option"

record provider_entry =
  historyLimit :: "int option"
  dmHistoryLimit :: "int option"
  dms :: "(jsstring \<rightharpoonup> dm_entry) option"

record OpenClawConfig =
  channels :: "(jsstring \<rightharpoonup> provider_entry) option"

definition resolveProviderConfig :: "OpenClawConfig \<Rightarrow> jsstring \<Rightarrow> provider_entry option" where
  "resolveProviderConfig cfg providerId =
     (case channels cfg of
        None \<Rightarrow> None
      | Some chans \<Rightarrow> chans providerId)"

definition perDmLimit :: "provider_entry \<Rightarrow> jsstring \<Rightarrow> int option" where
  "perDmLimit providerConfig userId =
     (case dms providerConfig of
        None \<Rightarrow> None
      | Some d \<Rightarrow> (case d userId of None \<Rightarrow> None | Some e \<Rightarrow> dm_historyLimit e))"

definition getHistoryLimitFromSessionKey ::
  "(jsstring \<Rightarrow> jsstring) \<Rightarrow> jsstring option \<Rightarrow> OpenClawConfig option \<Rightarrow> int option" where
  "getHistoryLimitFromSessionKey toLowerCase sessionKey config =
     (case sessionKey of
        None \<Rightarrow> None
      | Some key \<Rightarrow>
     (case config of
        None \<Rightarrow> None
      | Some cfg \<Rightarrow>
          if key = [] then None
          else
            let parts = filter (\<lambda>p. p \<noteq> []) (js_split 58 key);
                providerParts =
                  (if length parts \<ge> 3 \<and> parts ! 0 = utf16 ''agent'' then drop 2 parts else parts)
            in (case providerParts of
                  [] \<Rightarrow> None
                | p0 # afterProvider \<Rightarrow>
                    let provider = toLowerCase p0;
                        kind = (case afterProvider of [] \<Rightarrow> None | k # ks \<Rightarrow> Some (toLowerCase k));
                        userIdRaw = js_join (utf16 '':'') (drop 2 providerParts);
                        userId = stripThreadSuffix userIdRaw
                    in if provider = [] then None
                       else
                         (case resolveProviderConfig cfg provider of
                            None \<Rightarrow> None
                          | Some providerConfig \<Rightarrow>
                              if kind = Some (utf16 ''dm'') \<or> kind = Some (utf16 ''direct'') then
                                (if userId \<noteq> [] \<and> perDmLimit providerConfig userId \<noteq> None
                                 then perDmLimit providerConfig userId
                                 else dmHistoryLimit providerConfig)
                              else if kind = Some (utf16 ''channel'') \<or> kind = Some (utf16 ''group'')
                                then historyLimit providerConfig
                              else None))))"

subsection \<open>resolveEffectiveHistoryLimit\<close>

text \<open>
  \<open>envVar\<close> is \<^verbatim>\<open>process.env.LLM_MAX_HISTORY_TURNS\<close>: \<open>None\<close> when the variable is unset.
  \<open>envLimit\<close> is undefined (\<open>None\<close>) when the trimmed text is empty, and the parsed number
  otherwise; the ceiling applies when that number is truthy (neither NaN nor zero),
  finite (\<^verbatim>\<open>Number.isFinite\<close>) and positive.
\<close>

definition resolveEffectiveHistoryLimit ::
  "(jsstring \<Rightarrow> jsstring) \<Rightarrow> jsstring option \<Rightarrow> jsstring option \<Rightarrow> OpenClawConfig option
     \<Rightarrow> int option" where
  "resolveEffectiveHistoryLimit toLowerCase envVar sessionKey config =
     (let configLimit = getHistoryLimitFromSessionKey toLowerCase sessionKey config;
          envRaw = map_option trim envVar;
          envLimit = (case envRaw of
                        None \<Rightarrow> None
                      | Some s \<Rightarrow> if s = [] then None else Some (parseInt10 s))
      in (case envLimit of
            Some (Finite e) \<Rightarrow>
              if e \<noteq> 0 \<and> 0 < e then
                (case configLimit of
                   Some c \<Rightarrow> Some (min c e)
                 | None \<Rightarrow> Some e)
              else configLimit
          | Some NaN \<Rightarrow> configLimit
          | Some PosInfinity \<Rightarrow> configLimit
          | Some NegInfinity \<Rightarrow> configLimit
          | None \<Rightarrow> configLimit))"

section \<open>The usage logger\<close>

subsection \<open>Loop detection\<close>

text \<open>
  \<^verbatim>\<open>loopTracker\<close> is a process-wide \<^verbatim>\<open>Map\<close> from session keys to entries; the function
  reads and updates it, so the model takes the map and returns it updated beside the
  result (\<open>None\<close> is \<^verbatim>\<open>undefined\<close>).
\<close>

record loop_entry =
  messageCount :: nat
  totalChars :: nat
  streak :: nat

definition LOOP_STREAK_THRESHOLD :: nat where
  "LOOP_STREAK_THRESHOLD = 3"

definition loopWarningText :: "jsstring \<Rightarrow> nat \<Rightarrow> nat \<Rightarrow> nat \<Rightarrow> jsstring" where
  "loopWarningText sessionKey mc tc n =
     utf16 ''LOOP_BREAK: session '' @ sessionKey @ utf16 '' has sent the same context ''
     @ utf16 ''(messages='' @ showNat mc @ utf16 '', chars='' @ showNat tc @ utf16 '') ''
     @ showNat n @ utf16 '' times consecutively''"

definition checkAndUpdateLoopTracker ::
  "(jsstring \<rightharpoonup> loop_entry) \<Rightarrow> jsstring \<Rightarrow> nat \<Rightarrow> nat
     \<Rightarrow> jsstring option \<times> (jsstring \<rightharpoonup> loop_entry)" where
  "checkAndUpdateLoopTracker tracker sessionKey mc tc =
     (case tracker sessionKey of
        Some entry \<Rightarrow>
          if messageCount entry = mc \<and> totalChars entry = tc then
            (let entry' = entry\<lparr>streak := streak entry + 1\<rparr>;
                 tracker' = tracker(sessionKey \<mapsto> entry')
             in if streak entry' \<ge> LOOP_STREAK_THRESHOLD
                then (Some (loopWarningText sessionKey mc tc (streak entry')), tracker')
                else (None, tracker'))
          else (None, tracker(sessionKey \<mapsto> \<lparr>messageCount = mc, totalChars = tc, streak = 1\<rparr>))
      | None \<Rightarrow>
          (None, tracker(sessionKey \<mapsto> \<lparr>messageCount = mc, totalChars = tc, streak = 1\<rparr>)))"

subsection \<open>Token estimation and message sizes\<close>

text \<open>\<^verbatim>\<open>Math.ceil(chars / 4)\<close> on a count.\<close>

definition estimateTokens :: "nat \<Rightarrow> nat" where
  "estimateTokens chars = (chars + 3) div 4"

text \<open>
  \<open>countBlocks\<close> is the \<^verbatim>\<open>for (const block of m.content)\<close> loop of
  \<^verbatim>\<open>countMessageChars\<close> with its accumulator \<^verbatim>\<open>chars\<close>. Both property reads are
  unguarded in the source: \<^verbatim>\<open>m.content\<close> and \<^verbatim>\<open>b.text\<close> throw on null and undefined.
\<close>

fun countBlocks :: "jsval list \<Rightarrow> nat \<Rightarrow> js_error + nat" where
  "countBlocks [] chars = Inr chars"
| "countBlocks (block # blocks) chars =
     (case getProp block (utf16 ''text'') of
        Inl e \<Rightarrow> Inl e
      | Inr (JStr t) \<Rightarrow> countBlocks blocks (chars + length t)
      | Inr other \<Rightarrow> countBlocks blocks chars)"

definition countMessageChars :: "jsval \<Rightarrow> js_error + nat" where
  "countMessageChars msg =
     (case getProp msg (utf16 ''content'') of
        Inl e \<Rightarrow> Inl e
      | Inr (JStr s) \<Rightarrow> Inr (length s)
      | Inr (JArr blocks) \<Rightarrow> countBlocks blocks 0
      | Inr other \<Rightarrow> Inr 0)"

record analysis =
  totalTextChars :: nat
  maxMessageTextChars :: nat

fun analyzeLoop :: "jsval list \<Rightarrow> nat \<Rightarrow> nat \<Rightarrow> js_error + analysis" where
  "analyzeLoop [] tot mx = Inr \<lparr>totalTextChars = tot, maxMessageTextChars = mx\<rparr>"
| "analyzeLoop (msg # msgs) tot mx =
     (case countMessageChars msg of
        Inl e \<Rightarrow> Inl e
      | Inr chars \<Rightarrow> analyzeLoop msgs (tot + chars) (if chars > mx then chars else mx))"

definition analyzeMessages :: "jsval list \<Rightarrow> js_error + analysis" where
  "analyzeMessages messages = analyzeLoop messages 0 0"

subsection \<open>Events and the recorder's state\<close>

datatype usage_stage = StageInput | StageUsage | StageLoopBreak

record usage_event =
  ev_runId :: "jsstring option"
  ev_sessionId :: "jsstring option"
  ev_sessionKey :: "jsstring option"
  ev_provider :: "jsstring option"
  ev_modelId :: "jsstring option"
  ev_ts :: jsstring
  ev_stage :: usage_stage
  ev_messageCount :: nat
  ev_totalTextChars :: nat
  ev_maxMessageTextChars :: nat
  ev_estimatedInputTokens :: nat
  ev_loopWarning :: "jsstring option"

record logger_params =
  runId :: "jsstring option"
  sessionId :: "jsstring option"
  sessionKey :: "jsstring option"
  provider :: "jsstring option"
  modelId :: "jsstring option"

datatype log_line = LogWarn jsstring | LogDebug jsstring

text \<open>
  What the wrapper writes to: the loop tracker, the lines handed to the file writer and
  the lines handed to the subsystem logger.
\<close>

record recorder_state =
  loopTracker :: "jsstring \<rightharpoonup> loop_entry"
  written :: "jsstring list"
  logged :: "log_line list"

definition sessionLabel :: "logger_params \<Rightarrow> jsstring" where
  "sessionLabel params =
     (case sessionKey params of
        Some k \<Rightarrow> k
      | None \<Rightarrow> (case sessionId params of Some i \<Rightarrow> i | None \<Rightarrow> utf16 ''unknown''))"

text \<open>
  \<^verbatim>\<open>record(event)\<close>: \<^verbatim>\<open>safeJsonStringify\<close> comes from another module and is a parameter;
  it gives \<open>None\<close> for \<^verbatim>\<open>null\<close>. A missing or empty line is not written.
\<close>

definition recordEvent ::
  "(usage_event \<Rightarrow> jsstring option) \<Rightarrow> usage_event \<Rightarrow> recorder_state \<Rightarrow> recorder_state" where
  "recordEvent safeJsonStringify event st =
     (case safeJsonStringify event of
        None \<Rightarrow> st
      | Some line \<Rightarrow> if line = [] then st else st\<lparr>written := written st @ [line @ [10]]\<rparr>)"

definition templ :: "jsstring option \<Rightarrow> jsstring" where
  "templ v = (case v of None \<Rightarrow> utf16 ''undefined'' | Some s \<Rightarrow> s)"

definition debugLine :: "logger_params \<Rightarrow> nat \<Rightarrow> nat \<Rightarrow> nat \<Rightarrow> jsstring" where
  "debugLine params mc tc tokens =
     utf16 ''[llm-usage] input session='' @ sessionLabel params @ utf16 '' ''
     @ utf16 ''provider='' @ templ (provider params) @ utf16 ''/'' @ templ (modelId params) @ utf16 '' ''
     @ utf16 ''messages='' @ showNat mc @ utf16 '' chars='' @ showNat tc @ utf16 '' ''
     @ utf16 ''~tokens='' @ showNat tokens"

subsection \<open>wrapStreamFn\<close>

text \<open>
  \<open>contextMessages\<close> is the first three lines of the wrapped function: \<^verbatim>\<open>ctx?.messages\<close>,
  and the empty list unless that is an array.

  The wrapped function. \<open>streamFn\<close> is the call function: it takes the three arguments and
  the state of everything outside the recorder (\<open>'w\<close>), and gives its outcome (\<open>'r\<close>: a
  result or a failure) and that state updated. \<open>now\<close> is the clock reading
  \<^verbatim>\<open>new Date().toISOString()\<close>. The wrapper's own outcome is \<open>Inl\<close> when the recorder
  itself throws before the call, and otherwise the outcome of \<open>streamFn\<close> with both
  states.
\<close>

definition contextMessages :: "jsval \<Rightarrow> jsval list" where
  "contextMessages ctx =
     (let rawMessages = (if nullish ctx then JUndefined else propOf ctx (utf16 ''messages''))
      in case rawMessages of JArr ms \<Rightarrow> ms | other \<Rightarrow> [])"

definition wrapStreamFn ::
  "(usage_event \<Rightarrow> jsstring option) \<Rightarrow> logger_params \<Rightarrow> jsstring
     \<Rightarrow> ('m \<Rightarrow> jsval \<Rightarrow> 'o \<Rightarrow> 'w \<Rightarrow> 'r \<times> 'w)
     \<Rightarrow> 'm \<Rightarrow> jsval \<Rightarrow> 'o \<Rightarrow> recorder_state \<times> 'w \<Rightarrow> js_error + ('r \<times> recorder_state \<times> 'w)" where
  "wrapStreamFn safeJsonStringify params now streamFn model ctx opts stw =
     (let st = fst stw;
          world = snd stw;
          messages = contextMessages ctx
      in case analyzeMessages messages of
           Inl e \<Rightarrow> Inl e
         | Inr a \<Rightarrow>
             (let estimatedInputTokens = estimateTokens (totalTextChars a);
                  mc = length messages;
                  checked = checkAndUpdateLoopTracker (loopTracker st) (sessionLabel params) mc
                              (totalTextChars a);
                  loopWarning = fst checked;
                  inputEvent =
                    \<lparr>ev_runId = runId params, ev_sessionId = sessionId params,
                     ev_sessionKey = sessionKey params, ev_provider = provider params,
                     ev_modelId = modelId params, ev_ts = now,
                     ev_stage = (if loopWarning \<noteq> None \<and> loopWarning \<noteq> Some [] then StageLoopBreak
                                 else StageInput),
                     ev_messageCount = mc, ev_totalTextChars = totalTextChars a,
                     ev_maxMessageTextChars = maxMessageTextChars a,
                     ev_estimatedInputTokens = estimatedInputTokens,
                     ev_loopWarning = loopWarning\<rparr>;
                  st1 = recordEvent safeJsonStringify inputEvent (st\<lparr>loopTracker := snd checked\<rparr>);
                  st2 = (case loopWarning of
                           Some w \<Rightarrow>
                             if w \<noteq> [] then st1\<lparr>logged := logged st1 @ [LogWarn (utf16 ''[llm-usage] '' @ w)]\<rparr>
                             else st1\<lparr>logged := logged st1
                                    @ [LogDebug (debugLine params mc (totalTextChars a) estimatedInputTokens)]\<rparr>
                         | None \<Rightarrow>
                             st1\<lparr>logged := logged st1
                                    @ [LogDebug (debugLine params mc (totalTextChars a) estimatedInputTokens)]\<rparr>);
                  called = streamFn model ctx opts world
              in Inr (fst called, st2, snd called)))"

section \<open>compactMessages\<close>

subsection \<open>JSON.stringify\<close>

text \<open>
  The deduplication keys a message with non-string content by \<^verbatim>\<open>JSON.stringify\<close> of the
  content, which is \<^verbatim>\<open>undefined\<close> (\<open>None\<close>) for \<^verbatim>\<open>undefined\<close>. In an array an undefined
  element prints as null; in an object a property with an undefined value is left out.
  \<open>escapeUnit\<close> is the escape of one code unit in a quoted string: the two-character
  escapes, \<^verbatim>\<open>\u00xx\<close> for the other control characters and \<^verbatim>\<open>\udxxx\<close> for a surrogate
  that has no partner.
\<close>

definition hexDigit :: "nat \<Rightarrow> nat" where
  "hexDigit d = (if d < 10 then 48 + d else 87 + d)"

definition unicodeEscape :: "nat \<Rightarrow> jsstring" where
  "unicodeEscape c =
     [92, 117, hexDigit (c div 4096 mod 16), hexDigit (c div 256 mod 16),
      hexDigit (c div 16 mod 16), hexDigit (c mod 16)]"

definition isHighSurrogate :: "nat \<Rightarrow> bool" where
  "isHighSurrogate c \<longleftrightarrow> 0xD800 \<le> c \<and> c \<le> 0xDBFF"

definition isLowSurrogate :: "nat \<Rightarrow> bool" where
  "isLowSurrogate c \<longleftrightarrow> 0xDC00 \<le> c \<and> c \<le> 0xDFFF"

definition escapeUnit :: "nat \<Rightarrow> jsstring" where
  "escapeUnit c =
     (if c = 8 then [92, 98]
      else if c = 9 then [92, 116]
      else if c = 10 then [92, 110]
      else if c = 12 then [92, 102]
      else if c = 13 then [92, 114]
      else if c = 34 then [92, 34]
      else if c = 92 then [92, 92]
      else if c < 32 \<or> isHighSurrogate c \<or> isLowSurrogate c then unicodeEscape c
      else [c])"

fun quoteBody :: "jsstring \<Rightarrow> jsstring" where
  "quoteBody [] = []"
| "quoteBody [c] = escapeUnit c"
| "quoteBody (c # d # cs) =
     (if isHighSurrogate c \<and> isLowSurrogate d then c # d # quoteBody cs
      else escapeUnit c @ quoteBody (d # cs))"

definition quoteJson :: "jsstring \<Rightarrow> jsstring" where
  "quoteJson s = [34] @ quoteBody s @ [34]"

fun jsonStringify :: "jsval \<Rightarrow> jsstring option" where
  "jsonStringify JUndefined = None"
| "jsonStringify JNull = Some (utf16 ''null'')"
| "jsonStringify (JBool b) = Some (if b then utf16 ''true'' else utf16 ''false'')"
| "jsonStringify (JNum n) = Some (showInt n)"
| "jsonStringify (JStr s) = Some (quoteJson s)"
| "jsonStringify (JArr xs) =
     Some (utf16 ''['' @ js_join (utf16 '','')
             (map (\<lambda>x. case jsonStringify x of None \<Rightarrow> utf16 ''null'' | Some t \<Rightarrow> t) xs)
           @ utf16 '']'')"
| "jsonStringify (JObj kvs) =
     Some (utf16 ''{'' @ js_join (utf16 '','')
             (concat (map (\<lambda>kv. case jsonStringify (snd kv) of
                                   None \<Rightarrow> []
                                 | Some t \<Rightarrow> [quoteJson (fst kv) @ utf16 '':'' @ t]) kvs))
           @ utf16 ''}'')"

subsection \<open>Truncation\<close>

text \<open>
  \<^verbatim>\<open>TRUNC_SUFFIX\<close>: a line feed, U+2026, \<^verbatim>\<open>[truncated \<close>, U+2014 and
  \<^verbatim>\<open> content exceeded context budget]\<close>.
\<close>

definition TRUNC_SUFFIX :: jsstring where
  "TRUNC_SUFFIX =
     [10, 0x2026] @ utf16 ''[truncated '' @ [0x2014] @ utf16 '' content exceeded context budget]''"

text \<open>
  \<^verbatim>\<open>text.slice(0, e)\<close>: a negative end counts from the end of the text, and the end is
  clamped to the text. \<^verbatim>\<open>xs.slice(b)\<close>: a negative start counts from the end.
\<close>

definition sliceTo :: "'a list \<Rightarrow> int \<Rightarrow> 'a list" where
  "sliceTo xs e = (if e < 0 then take (nat (int (length xs) + e)) xs else take (nat e) xs)"

definition sliceFrom :: "'a list \<Rightarrow> int \<Rightarrow> 'a list" where
  "sliceFrom xs b = (if b < 0 then drop (nat (int (length xs) + b)) xs else drop (nat b) xs)"

definition truncateString :: "jsstring \<Rightarrow> int \<Rightarrow> jsstring" where
  "truncateString txt limit =
     (if int (length txt) \<le> limit then txt
      else sliceTo txt (limit - int (length TRUNC_SUFFIX)) @ TRUNC_SUFFIX)"

text \<open>\<open>compactBlock\<close> is the callback of \<^verbatim>\<open>content.map\<close> in \<^verbatim>\<open>compactContent\<close>.\<close>

definition compactBlock :: "int \<Rightarrow> jsval \<Rightarrow> jsval" where
  "compactBlock cap block =
     (if falsy block \<or> \<not> typeofObject block then block
      else (case propOf block (utf16 ''text'') of
              JStr t \<Rightarrow>
                if int (length t) \<le> cap then block
                else spreadWith block (utf16 ''text'') (JStr (truncateString t cap))
            | other \<Rightarrow> block))"

definition compactContent :: "int \<Rightarrow> int \<Rightarrow> jsval \<Rightarrow> bool \<Rightarrow> jsval" where
  "compactContent maxMsgChars maxToolChars content isToolResult =
     (case content of
        JStr s \<Rightarrow> JStr (truncateString s (if isToolResult then maxToolChars else maxMsgChars))
      | JArr blocks \<Rightarrow> JArr (map (compactBlock (if isToolResult then maxToolChars else maxMsgChars)) blocks)
      | other \<Rightarrow> content)"

text \<open>
  \<open>compactMessage\<close> is the callback of the first \<^verbatim>\<open>messages.map\<close>. \<open>sameReference\<close> is
  \<^verbatim>\<open>newContent === m.content\<close>: \<^verbatim>\<open>compactContent\<close> gives a string (compared by value), a
  new array (never the same reference), or the content itself.
\<close>

definition sameReference :: "jsval \<Rightarrow> jsval \<Rightarrow> bool" where
  "sameReference newContent content = (case content of JArr blocks \<Rightarrow> False | other \<Rightarrow> newContent = content)"

definition isToolRole :: "jsval \<Rightarrow> bool" where
  "isToolRole r \<longleftrightarrow> r = JStr (utf16 ''toolResult'') \<or> r = JStr (utf16 ''tool'') \<or> r = JStr (utf16 ''function'')"

definition compactMessage :: "int \<Rightarrow> int \<Rightarrow> jsval \<Rightarrow> jsval" where
  "compactMessage maxMsgChars maxToolChars msg =
     (if falsy msg \<or> \<not> typeofObject msg then msg
      else
        (let isToolResult = isToolRole (propOf msg (utf16 ''role''));
             content = propOf msg (utf16 ''content'')
         in if content = JUndefined then msg
            else
              (let newContent = compactContent maxMsgChars maxToolChars content isToolResult
               in if sameReference newContent content then msg
                  else spreadWith msg (utf16 ''content'') newContent)))"

subsection \<open>Deduplication and the window\<close>

text \<open>
  \<open>dedupeSystem seen\<close> is the second \<^verbatim>\<open>filter\<close> with its running set \<^verbatim>\<open>seen\<close>; a key is a
  string or \<^verbatim>\<open>undefined\<close>.
\<close>

definition dedupeKey :: "jsval \<Rightarrow> jsstring option" where
  "dedupeKey msg =
     (case propOf msg (utf16 ''content'') of
        JStr s \<Rightarrow> Some s
      | other \<Rightarrow> jsonStringify other)"

fun dedupeSystem :: "jsstring option set \<Rightarrow> jsval list \<Rightarrow> jsval list" where
  "dedupeSystem seen [] = []"
| "dedupeSystem seen (msg # msgs) =
     (if falsy msg \<or> \<not> typeofObject msg then msg # dedupeSystem seen msgs
      else if propOf msg (utf16 ''role'') \<noteq> JStr (utf16 ''system'') then msg # dedupeSystem seen msgs
      else if dedupeKey msg \<in> seen then dedupeSystem seen msgs
      else msg # dedupeSystem (insert (dedupeKey msg) seen) msgs)"

definition isSystemMessage :: "jsval \<Rightarrow> bool" where
  "isSystemMessage m \<longleftrightarrow>
     \<not> falsy m \<and> typeofObject m \<and> propOf m (utf16 ''role'') = JStr (utf16 ''system'')"

definition isNonSystemMessage :: "jsval \<Rightarrow> bool" where
  "isNonSystemMessage m \<longleftrightarrow>
     falsy m \<or> \<not> typeofObject m \<or> propOf m (utf16 ''role'') \<noteq> JStr (utf16 ''system'')"

record compact_options =
  maxMessages :: "int option"
  maxMessageChars :: "int option"
  maxToolResultChars :: "int option"

definition orDefault :: "int option \<Rightarrow> int \<Rightarrow> int" where
  "orDefault v d = (case v of None \<Rightarrow> d | Some n \<Rightarrow> n)"

definition windowMessages :: "int \<Rightarrow> jsval list \<Rightarrow> jsval list" where
  "windowMessages maxMsgs compacted =
     (if maxMsgs > 0 \<and> int (length compacted) > maxMsgs then
        (let system = filter isSystemMessage compacted;
             nonSystem = filter isNonSystemMessage compacted;
             tail = sliceFrom nonSystem (- max 0 (maxMsgs - int (length system)))
         in system @ tail)
      else compacted)"

definition compactMessages :: "jsval list \<Rightarrow> compact_options \<Rightarrow> jsval list" where
  "compactMessages messages opts =
     (let maxMsgs = orDefault (maxMessages opts) 60;
          maxMsgChars = orDefault (maxMessageChars opts) 20000;
          maxToolChars = orDefault (maxToolResultChars opts) 8000;
          compacted = map (compactMessage maxMsgChars maxToolChars) messages;
          deduped = dedupeSystem {} compacted
      in windowMessages maxMsgs deduped)"

chapter \<open>Properties\<close>

section \<open>Vocabulary of the statements\<close>

text \<open>The number of user-role messages of a list.\<close>

definition userTurns :: "'a agent_message_scheme list \<Rightarrow> nat" where
  "userTurns ms = length (filter (\<lambda>m. role m = utf16 ''user'') ms)"

text \<open>Sample messages and a sample history of three turns.\<close>

definition userMsg :: agent_message where
  "userMsg = \<lparr>role = utf16 ''user''\<rparr>"

definition assistantMsg :: agent_message where
  "assistantMsg = \<lparr>role = utf16 ''assistant''\<rparr>"

definition threeTurns :: "agent_message list" where
  "threeTurns = [userMsg, assistantMsg, userMsg, assistantMsg, userMsg, assistantMsg]"

text \<open>Ten user messages, each followed by an assistant reply.\<close>

definition tenTurns :: "agent_message list" where
  "tenTurns = concat (replicate 10 [userMsg, assistantMsg])"

text \<open>
  A sample configuration: the provider telegram with a direct-message default, and a
  session key of a direct message under it.
\<close>

definition telegramConfig :: "int \<Rightarrow> OpenClawConfig" where
  "telegramConfig n =
     \<lparr>channels = Some [utf16 ''telegram'' \<mapsto>
        \<lparr>historyLimit = None, dmHistoryLimit = Some n, dms = None\<rparr>]\<rparr>"

definition telegramDmKey :: jsstring where
  "telegramDmKey = utf16 ''agent:main:telegram:dm:4711''"

text \<open>
  The warnings of a run of observations for one session key, in order, and the tracker
  after the run.
\<close>

fun observeAll ::
  "(jsstring \<rightharpoonup> loop_entry) \<Rightarrow> jsstring \<Rightarrow> (nat \<times> nat) list
     \<Rightarrow> jsstring option list \<times> (jsstring \<rightharpoonup> loop_entry)" where
  "observeAll tracker key [] = ([], tracker)"
| "observeAll tracker key (ob # obs) =
     (let r = checkAndUpdateLoopTracker tracker key (fst ob) (snd ob);
          rest = observeAll (snd r) key obs
      in (fst r # fst rest, snd rest))"

text \<open>
  The entries \<^verbatim>\<open>countMessageChars\<close> can read: an entry that is neither null nor undefined
  and, when its content is an array, holds no null or undefined block.
\<close>

definition readable :: "jsval \<Rightarrow> bool" where
  "readable m \<longleftrightarrow>
     \<not> nullish m
     \<and> (case propOf m (utf16 ''content'') of
           JArr blocks \<Rightarrow> list_all (\<lambda>b. \<not> nullish b) blocks
         | other \<Rightarrow> True)"

text \<open>
  A call function with a trace: \<open>traced f\<close> behaves as \<open>f\<close> and appends the arguments of
  each invocation to a list kept beside the outer state.
\<close>

definition traced ::
  "('m \<Rightarrow> jsval \<Rightarrow> 'o \<Rightarrow> 'w \<Rightarrow> 'r \<times> 'w)
     \<Rightarrow> 'm \<Rightarrow> jsval \<Rightarrow> 'o \<Rightarrow> ('m \<times> jsval \<times> 'o) list \<times> 'w \<Rightarrow> 'r \<times> (('m \<times> jsval \<times> 'o) list \<times> 'w)" where
  "traced f m c opts tw =
     (let r = f m c opts (snd tw) in (fst r, (fst tw @ [(m, c, opts)], snd r)))"

text \<open>
  Samples: a call function that counts its invocations and answers with the count, a
  serializer that prints every event as the same line, a logger without identity, a fresh
  recorder state, and messages and contexts built from a role and a content.
\<close>

definition countingCall :: "unit \<Rightarrow> jsval \<Rightarrow> unit \<Rightarrow> nat \<Rightarrow> nat \<times> nat" where
  "countingCall m c opts calls = (Suc calls, Suc calls)"

definition constantLine :: "usage_event \<Rightarrow> jsstring option" where
  "constantLine event = Some (utf16 ''{}'')"

definition anonymousLogger :: logger_params where
  "anonymousLogger =
     \<lparr>runId = None, sessionId = None, sessionKey = None, provider = None, modelId = None\<rparr>"

definition freshRecorder :: recorder_state where
  "freshRecorder = \<lparr>loopTracker = Map.empty, written = [], logged = []\<rparr>"

definition message :: "string \<Rightarrow> jsval \<Rightarrow> jsval" where
  "message r c = JObj [(utf16 ''role'', JStr (utf16 r)), (utf16 ''content'', c)]"

definition contextOf :: "jsval list \<Rightarrow> jsval" where
  "contextOf ms = JObj [(utf16 ''messages'', JArr ms)]"

definition textBlock :: "jsstring \<Rightarrow> jsval" where
  "textBlock t = JObj [(utf16 ''type'', JStr (utf16 ''text'')), (utf16 ''text'', JStr t)]"

text \<open>A recorder that has seen the shape (1 message, 5 characters) twice for the key unknown.\<close>

definition primedRecorder :: recorder_state where
  "primedRecorder =
     \<lparr>loopTracker = [utf16 ''unknown'' \<mapsto> \<lparr>messageCount = 1, totalChars = 5, streak = 2\<rparr>],
      written = [], logged = []\<rparr>"

text \<open>
  The resolved options, and the messages that remain after truncation and
  deduplication, before the window.
\<close>

definition msgCap :: "compact_options \<Rightarrow> int" where
  "msgCap opts = orDefault (maxMessageChars opts) 20000"

definition toolCap :: "compact_options \<Rightarrow> int" where
  "toolCap opts = orDefault (maxToolResultChars opts) 8000"

definition windowSize :: "compact_options \<Rightarrow> int" where
  "windowSize opts = orDefault (maxMessages opts) 60"

definition afterDedupe :: "jsval list \<Rightarrow> compact_options \<Rightarrow> jsval list" where
  "afterDedupe ms opts = dedupeSystem {} (map (compactMessage (msgCap opts) (toolCap opts)) ms)"

definition defaultOptions :: compact_options where
  "defaultOptions = \<lparr>maxMessages = None, maxMessageChars = None, maxToolResultChars = None\<rparr>"

text \<open>
  Position \<open>i\<close> of a list is dropped by the deduplication: a system message whose key is
  the key of a system message at an earlier position.
\<close>

definition droppedAt :: "jsval list \<Rightarrow> nat \<Rightarrow> bool" where
  "droppedAt ms i \<longleftrightarrow>
     isSystemMessage (ms ! i)
     \<and> (\<exists>j<i. isSystemMessage (ms ! j) \<and> dedupeKey (ms ! j) = dedupeKey (ms ! i))"

text \<open>
  The string content of a message, when its content is a string. The text content of a
  message, as \<^verbatim>\<open>countMessageChars\<close> counts it: a string content, or the texts of the
  blocks of an array content, in order.
\<close>

definition stringContent :: "jsval \<Rightarrow> jsstring option" where
  "stringContent m = (case propOf m (utf16 ''content'') of JStr s \<Rightarrow> Some s | other \<Rightarrow> None)"

definition blockText :: "jsval \<Rightarrow> jsstring" where
  "blockText b = (case propOf b (utf16 ''text'') of JStr t \<Rightarrow> t | other \<Rightarrow> [])"

definition textContent :: "jsval \<Rightarrow> jsstring" where
  "textContent m =
     (case propOf m (utf16 ''content'') of
        JStr s \<Rightarrow> s
      | JArr blocks \<Rightarrow> concat (map blockText blocks)
      | other \<Rightarrow> [])"

text \<open>
  Position \<open>i\<close> of a list of messages repeats a system text under a cap: it holds a system
  message, and a system message at an earlier position has a string content that, cut to
  the cap, is the string content of the message at \<open>i\<close> cut to the cap.
\<close>

definition repeatedAt :: "int \<Rightarrow> jsval list \<Rightarrow> nat \<Rightarrow> bool" where
  "repeatedAt cap ms i \<longleftrightarrow>
     isSystemMessage (ms ! i)
     \<and> (\<exists>j<i. isSystemMessage (ms ! j) \<and> stringContent (ms ! j) \<noteq> None
              \<and> map_option (\<lambda>s. truncateString s cap) (stringContent (ms ! j))
                  = map_option (\<lambda>s. truncateString s cap) (stringContent (ms ! i)))"

text \<open>The keys of the system messages of a list.\<close>

definition sysKeys :: "jsval list \<Rightarrow> jsstring option set" where
  "sysKeys ms = dedupeKey ` {m \<in> set ms. isSystemMessage m}"

text \<open>Options that set the window only, and options that set the message cap only.\<close>

definition windowOf :: "int \<Rightarrow> compact_options" where
  "windowOf n = \<lparr>maxMessages = Some n, maxMessageChars = None, maxToolResultChars = None\<rparr>"

definition messageCapOf :: "int \<Rightarrow> compact_options" where
  "messageCapOf n = \<lparr>maxMessages = None, maxMessageChars = Some n, maxToolResultChars = None\<rparr>"

text \<open>
  A configuration with one provider: its \<^verbatim>\<open>historyLimit\<close>, its \<^verbatim>\<open>dmHistoryLimit\<close>, and one
  entry of \<^verbatim>\<open>dms\<close> with its \<^verbatim>\<open>historyLimit\<close>.
\<close>

definition channelConfig ::
  "jsstring \<Rightarrow> int option \<Rightarrow> int option \<Rightarrow> jsstring \<Rightarrow> int option \<Rightarrow> OpenClawConfig" where
  "channelConfig providerId h d userId ov =
     \<lparr>channels = Some [providerId \<mapsto>
        \<lparr>historyLimit = h, dmHistoryLimit = d, dms = Some [userId \<mapsto> \<lparr>dm_historyLimit = ov\<rparr>]\<rparr>]\<rparr>"

section \<open>Basic facts\<close>

lemma utf16_eq_iff [simp]: "utf16 a = utf16 b \<longleftrightarrow> a = b"
  by (simp add: utf16_def inj_map_eq_map inj_of_char)

lemma utf16_Nil [simp]: "utf16 [] = []"
  by (simp add: utf16_def)

lemma utf16_eq_Nil_iff [simp]: "utf16 a = [] \<longleftrightarrow> a = []"
  by (simp add: utf16_def)

lemma length_utf16 [simp]: "length (utf16 a) = length a"
  by (simp add: utf16_def)

lemma utf16_append: "utf16 a @ utf16 b = utf16 (a @ b)"
  by (simp add: utf16_def)

section \<open>The history turn limiter\<close>

lemma userTurns_Nil [simp]: "userTurns [] = 0"
  by (simp add: userTurns_def)

lemma userTurns_Cons [simp]:
  "userTurns (m # ms) = (if role m = utf16 ''user'' then Suc (userTurns ms) else userTurns ms)"
  by (simp add: userTurns_def)

lemma userTurns_drop_le: "userTurns (drop k ms) \<le> userTurns ms"
proof -
  have "userTurns ms = userTurns (take k ms) + userTurns (drop k ms)"
    unfolding userTurns_def by (metis append_take_drop_id filter_append length_append)
  then show ?thesis by simp
qed

text \<open>The loop returns the list itself or \<^verbatim>\<open>messages.slice(lastUserIndex)\<close>.\<close>

lemma scanTurns_is_drop: "\<exists>k. scanTurns ms l n uc lui = drop k ms"
proof (induction n arbitrary: uc lui)
  case 0
  have "scanTurns ms l 0 uc lui = drop 0 ms" by simp
  then show ?case by blast
next
  case (Suc i)
  show ?case
  proof (cases "role (ms ! i) = utf16 ''user''")
    case True
    then show ?thesis using Suc[of "uc + 1" i] by (cases "uc + 1 > l") auto
  next
    case False
    then show ?thesis using Suc[of uc lui] by simp
  qed
qed

text \<open>
  The loop invariant: below index \<open>n\<close> nothing is read yet, \<open>uc\<close> counts the user
  messages from \<open>n\<close> on, and \<open>lui\<close> is the first of them (the length when there is none).
\<close>

lemma scanTurns_cut:
  assumes "n \<le> length ms" and "uc = int (userTurns (drop n ms))" and "uc \<le> l" and "0 < l"
    and "(uc = 0 \<and> lui = length ms) \<or>
         (0 < uc \<and> lui < length ms \<and> role (ms ! lui) = utf16 ''user''
            \<and> int (userTurns (drop lui ms)) = uc)"
  shows "if l < int (userTurns ms)
         then \<exists>k<length ms. scanTurns ms l n uc lui = drop k ms \<and> role (ms ! k) = utf16 ''user''
                 \<and> int (userTurns (drop k ms)) = l
         else scanTurns ms l n uc lui = ms"
  using assms
proof (induction n arbitrary: uc lui)
  case 0
  then show ?case by simp
next
  case (Suc i)
  from Suc.prems(1) have i: "i < length ms" by simp
  then have split: "drop i ms = ms ! i # drop (Suc i) ms"
    by (simp add: Cons_nth_drop_Suc)
  show ?case
  proof (cases "role (ms ! i) = utf16 ''user''")
    case user: True
    then have cnt: "int (userTurns (drop i ms)) = uc + 1"
      using split Suc.prems(2) by simp
    show ?thesis
    proof (cases "uc + 1 > l")
      case True
      with Suc.prems(3) have ucl: "uc = l" by simp
      with Suc.prems(4,5) have lui: "lui < length ms" "role (ms ! lui) = utf16 ''user''"
          "int (userTurns (drop lui ms)) = l" by auto
      have "l < int (userTurns ms)"
        using cnt ucl userTurns_drop_le[of i ms] by linarith
      moreover have "scanTurns ms l (Suc i) uc lui = drop lui ms"
        using user True by simp
      ultimately show ?thesis using lui by auto
    next
      case False
      then have step: "scanTurns ms l (Suc i) uc lui = scanTurns ms l i (uc + 1) i"
        using user by simp
      have "if l < int (userTurns ms)
         then \<exists>k<length ms. scanTurns ms l i (uc + 1) i = drop k ms \<and> role (ms ! k) = utf16 ''user''
                 \<and> int (userTurns (drop k ms)) = l
         else scanTurns ms l i (uc + 1) i = ms"
      proof (rule Suc.IH)
        show "i \<le> length ms" using i by simp
        show "uc + 1 = int (userTurns (drop i ms))" using cnt by simp
        show "uc + 1 \<le> l" using False by simp
        show "0 < l" by (rule Suc.prems(4))
        have "0 \<le> uc" using Suc.prems(2) by simp
        then show "(uc + 1 = 0 \<and> i = length ms) \<or>
           (0 < uc + 1 \<and> i < length ms \<and> role (ms ! i) = utf16 ''user''
              \<and> int (userTurns (drop i ms)) = uc + 1)"
          using i user cnt by simp
      qed
      then show ?thesis using step by simp
    qed
  next
    case other: False
    then have cnt: "int (userTurns (drop i ms)) = uc"
      using split Suc.prems(2) by simp
    have step: "scanTurns ms l (Suc i) uc lui = scanTurns ms l i uc lui"
      using other by simp
    have "if l < int (userTurns ms)
         then \<exists>k<length ms. scanTurns ms l i uc lui = drop k ms \<and> role (ms ! k) = utf16 ''user''
                 \<and> int (userTurns (drop k ms)) = l
         else scanTurns ms l i uc lui = ms"
    proof (rule Suc.IH)
      show "i \<le> length ms" using i by simp
      show "uc = int (userTurns (drop i ms))" using cnt by simp
      show "uc \<le> l" by (rule Suc.prems(3))
      show "0 < l" by (rule Suc.prems(4))
      show "(uc = 0 \<and> lui = length ms) \<or>
           (0 < uc \<and> lui < length ms \<and> role (ms ! lui) = utf16 ''user''
              \<and> int (userTurns (drop lui ms)) = uc)"
        by (rule Suc.prems(5))
    qed
    then show ?thesis using step by simp
  qed
qed

lemma limitHistoryTurns_positive:
  assumes "0 < l"
  shows "if l < int (userTurns ms)
         then \<exists>k<length ms. limitHistoryTurns ms (Some l) = drop k ms \<and> role (ms ! k) = utf16 ''user''
                 \<and> int (userTurns (drop k ms)) = l
         else limitHistoryTurns ms (Some l) = ms"
proof (cases "ms = []")
  case True
  then show ?thesis using assms by (simp add: limitHistoryTurns_def)
next
  case False
  have "if l < int (userTurns ms)
         then \<exists>k<length ms. scanTurns ms l (length ms) 0 (length ms) = drop k ms
                 \<and> role (ms ! k) = utf16 ''user'' \<and> int (userTurns (drop k ms)) = l
         else scanTurns ms l (length ms) 0 (length ms) = ms"
    by (rule scanTurns_cut) (use assms in simp_all)
  then show ?thesis using False assms by (simp add: limitHistoryTurns_def)
qed

lemma limitHistoryTurns_unchanged:
  "limit = None \<or> (\<exists>l. limit = Some l \<and> l \<le> 0) \<or> ms = [] \<Longrightarrow> limitHistoryTurns ms limit = ms"
  by (auto simp: limitHistoryTurns_def split: option.splits)

lemma threeTurns_limit2: "limitHistoryTurns threeTurns (Some 2) = drop 2 threeTurns"
  by (simp add: limitHistoryTurns_def threeTurns_def userMsg_def assistantMsg_def
      numeral_eq_Suc)

lemma tenTurns_limit3:
  "length tenTurns = 20 \<and> userTurns tenTurns = 10
   \<and> limitHistoryTurns tenTurns (Some 3) = drop 14 tenTurns
   \<and> drop 14 tenTurns = [userMsg, assistantMsg, userMsg, assistantMsg, userMsg, assistantMsg]
   \<and> length (limitHistoryTurns tenTurns (Some 0)) = 20
   \<and> length (limitHistoryTurns tenTurns None) = 20"
  by (simp add: tenTurns_def limitHistoryTurns_def userMsg_def assistantMsg_def eval_nat_numeral)

text \<open>
  Claim C6, as amended. \<open>limitHistoryTurns\<close> returns its input when the limit is absent,
  zero or negative, or the list is empty. For a positive limit \<open>l\<close> and a list with more
  than \<open>l\<close> user-role messages it returns the suffix that starts at the \<open>l\<close>-th most recent
  user-role message: the suffix starts at a user-role message and holds exactly \<open>l\<close> of
  them, so at most \<open>l\<close>.
\<close>

theorem limitHistoryTurns_turns:
  "(limit = None \<or> (\<exists>l. limit = Some l \<and> l \<le> 0) \<or> messages = []
      \<longrightarrow> limitHistoryTurns messages limit = messages)
   \<and> (\<forall>l. limit = Some l \<and> 0 < l \<and> l < int (userTurns messages) \<longrightarrow>
         (\<exists>k<length messages.
             limitHistoryTurns messages limit = drop k messages
           \<and> role (messages ! k) = utf16 ''user''
           \<and> int (userTurns (drop k messages)) = l)
         \<and> int (userTurns (limitHistoryTurns messages limit)) \<le> l
         \<and> role (hd (limitHistoryTurns messages limit)) = utf16 ''user'')"
proof (intro conjI allI impI)
  assume "limit = None \<or> (\<exists>l. limit = Some l \<and> l \<le> 0) \<or> messages = []"
  then show "limitHistoryTurns messages limit = messages"
    by (rule limitHistoryTurns_unchanged)
next
  fix l
  assume a: "limit = Some l \<and> 0 < l \<and> l < int (userTurns messages)"
  then have "\<exists>k<length messages. limitHistoryTurns messages (Some l) = drop k messages
      \<and> role (messages ! k) = utf16 ''user'' \<and> int (userTurns (drop k messages)) = l"
    using limitHistoryTurns_positive[of l messages] by simp
  then obtain k where k: "k < length messages"
      "limitHistoryTurns messages (Some l) = drop k messages"
      "role (messages ! k) = utf16 ''user''" "int (userTurns (drop k messages)) = l"
    by blast
  from k a show "\<exists>k<length messages.
             limitHistoryTurns messages limit = drop k messages
           \<and> role (messages ! k) = utf16 ''user''
           \<and> int (userTurns (drop k messages)) = l"
    by blast
  from k a show "int (userTurns (limitHistoryTurns messages limit)) \<le> l"
    by simp
  from k a show "role (hd (limitHistoryTurns messages limit)) = utf16 ''user''"
    by (simp add: hd_drop_conv_nth)
qed

theorem limitHistoryTurns_turns_witness:
  "(0::int) < 2 \<and> 2 < int (userTurns threeTurns)
   \<and> limitHistoryTurns threeTurns (Some 2) = [userMsg, assistantMsg, userMsg, assistantMsg]
   \<and> int (userTurns (limitHistoryTurns threeTurns (Some 2))) \<le> 2
   \<and> role (hd (limitHistoryTurns threeTurns (Some 2))) = utf16 ''user''
   \<and> limitHistoryTurns threeTurns None = threeTurns
   \<and> (3::int) < int (userTurns tenTurns)
   \<and> limitHistoryTurns tenTurns (Some 3) = drop 14 tenTurns
   \<and> int (userTurns (limitHistoryTurns tenTurns (Some 3))) \<le> 3
   \<and> limitHistoryTurns tenTurns (Some 0) = tenTurns"
proof -
  have three: "(0::int) < 2 \<and> 2 < int (userTurns threeTurns)
   \<and> limitHistoryTurns threeTurns (Some 2) = [userMsg, assistantMsg, userMsg, assistantMsg]
   \<and> int (userTurns (limitHistoryTurns threeTurns (Some 2))) \<le> 2
   \<and> role (hd (limitHistoryTurns threeTurns (Some 2))) = utf16 ''user''
   \<and> limitHistoryTurns threeTurns None = threeTurns"
    using limitHistoryTurns_turns[of "Some 2" threeTurns] limitHistoryTurns_turns[of None threeTurns]
    by (simp add: threeTurns_limit2) (simp add: threeTurns_def userMsg_def assistantMsg_def)
  have users: "userTurns tenTurns = 10" and cut: "limitHistoryTurns tenTurns (Some 3) = drop 14 tenTurns"
    using tenTurns_limit3 by blast+
  have most: "int (userTurns (limitHistoryTurns tenTurns (Some 3))) \<le> 3"
    using limitHistoryTurns_turns[of "Some 3" tenTurns] users by simp
  have zero: "limitHistoryTurns tenTurns (Some 0) = tenTurns"
    using limitHistoryTurns_turns[of "Some 0" tenTurns] by simp
  have "(3::int) < int (userTurns tenTurns)"
    using users by simp
  with three cut most zero show ?thesis by blast
qed

text \<open>
  The claim as worded takes every limit other than an absent or a zero one into its
  second half. At the limit \<open>-1\<close> the list of one user message has more than \<open>-1\<close>
  user-role messages, and the function returns it whole: one user-role message, which is
  not at most \<open>-1\<close>.
\<close>

theorem limitHistoryTurns_negative_limit_counterexample:
  "limitHistoryTurns [userMsg] (Some (- 1)) = [userMsg]
   \<and> (- 1) < int (userTurns [userMsg])
   \<and> \<not> int (userTurns (limitHistoryTurns [userMsg] (Some (- 1)))) \<le> - 1"
  by (simp add: limitHistoryTurns_def userMsg_def)

text \<open>
  Claim C10. For every list and every limit the result is a tail slice of the input: the
  input itself (\<open>k = 0\<close>) or \<^verbatim>\<open>messages.slice(k)\<close>. The element at position \<open>i\<close> of the
  result is the element at position \<open>k + i\<close> of the input; the function builds no
  message.
\<close>

theorem limitHistoryTurns_tail_slice:
  "\<exists>k. k \<le> length messages
       \<and> limitHistoryTurns messages limit = drop k messages
       \<and> (\<forall>i. i < length (limitHistoryTurns messages limit)
              \<longrightarrow> limitHistoryTurns messages limit ! i = messages ! (k + i))"
proof -
  have "\<exists>k. limitHistoryTurns messages limit = drop k messages"
  proof (cases limit)
    case None
    then have "limitHistoryTurns messages limit = drop 0 messages"
      by (simp add: limitHistoryTurns_def)
    then show ?thesis by blast
  next
    case (Some l)
    show ?thesis
    proof (cases "l = 0 \<or> l \<le> 0 \<or> length messages = 0")
      case True
      then have "limitHistoryTurns messages limit = drop 0 messages"
        using Some by (simp add: limitHistoryTurns_def)
      then show ?thesis by blast
    next
      case False
      then have "limitHistoryTurns messages limit
                   = scanTurns messages l (length messages) 0 (length messages)"
        using Some by (simp add: limitHistoryTurns_def)
      then show ?thesis using scanTurns_is_drop by metis
    qed
  qed
  then obtain k where k: "limitHistoryTurns messages limit = drop k messages" by blast
  let ?k = "min k (length messages)"
  have eq: "limitHistoryTurns messages limit = drop ?k messages"
    using k by (cases "k \<le> length messages") (simp_all add: min_def)
  have "\<forall>i. i < length (limitHistoryTurns messages limit)
              \<longrightarrow> limitHistoryTurns messages limit ! i = messages ! (?k + i)"
    using eq by simp
  with eq show ?thesis
    by (intro exI[of _ ?k]) simp
qed

theorem limitHistoryTurns_tail_slice_witness:
  "(\<exists>k. k \<le> length threeTurns
       \<and> limitHistoryTurns threeTurns (Some 2) = drop k threeTurns
       \<and> limitHistoryTurns threeTurns (Some 2) ! 0 = threeTurns ! (k + 0))
   \<and> limitHistoryTurns threeTurns (Some 2) = drop 2 threeTurns"
proof -
  obtain k where k: "k \<le> length threeTurns"
      "limitHistoryTurns threeTurns (Some 2) = drop k threeTurns"
      "\<forall>i. i < length (limitHistoryTurns threeTurns (Some 2))
              \<longrightarrow> limitHistoryTurns threeTurns (Some 2) ! i = threeTurns ! (k + i)"
    using limitHistoryTurns_tail_slice[of threeTurns "Some 2"] by blast
  have "0 < length (limitHistoryTurns threeTurns (Some 2))"
    by (simp add: threeTurns_limit2) (simp add: threeTurns_def)
  with k(3) have "limitHistoryTurns threeTurns (Some 2) ! 0 = threeTurns ! (k + 0)"
    by blast
  with k(1,2) show ?thesis
    using threeTurns_limit2 by blast
qed

section \<open>The effective history limit\<close>

subsection \<open>Doubles and parseInt\<close>

declare bitLength.simps [simp del]

lemma bitLength_unfold: "bitLength n = (if n = 0 then 0 else Suc (bitLength (n div 2)))"
  by (rule bitLength.simps)

lemma bitLength_bounds:
  "n \<noteq> 0 \<Longrightarrow> 2 ^ (bitLength n - 1) \<le> n \<and> n < 2 ^ bitLength n"
proof (induction n rule: bitLength.induct)
  case (1 n)
  show ?case
  proof (cases "n div 2 = 0")
    case True
    with "1.prems" have "n = 1" by (simp add: div_eq_0_iff)
    moreover have "bitLength 1 = 1"
      using bitLength_unfold[of 1] bitLength_unfold[of 0] by simp
    ultimately show ?thesis by simp
  next
    case False
    with "1.prems" "1.IH" have ih: "2 ^ (bitLength (n div 2) - 1) \<le> n div 2"
        "n div 2 < 2 ^ bitLength (n div 2)"
      by simp_all
    have pos: "bitLength (n div 2) \<noteq> 0"
      using False bitLength_unfold[of "n div 2"] by simp
    have bl: "bitLength n = Suc (bitLength (n div 2))"
      using "1.prems" bitLength_unfold[of n] by simp
    have "(2::nat) ^ bitLength (n div 2) = 2 * 2 ^ (bitLength (n div 2) - 1)"
      using pos by (cases "bitLength (n div 2)") simp_all
    then have "(2::nat) ^ bitLength (n div 2) \<le> 2 * (n div 2)"
      using ih(1) by linarith
    then have lower: "2 ^ bitLength (n div 2) \<le> n"
      by linarith
    have "2 * (n div 2) + 2 \<le> 2 * 2 ^ bitLength (n div 2)"
      using ih(2) by linarith
    then have upper: "n < 2 * 2 ^ bitLength (n div 2)"
      by linarith
    show ?thesis
      unfolding bl using lower upper by simp
  qed
qed

lemma toDouble_small: "n < 2 ^ 53 \<Longrightarrow> toDouble n = Some n"
proof (cases "n = 0")
  case True
  then show ?thesis
    using bitLength_unfold[of 0] by (simp add: toDouble_def)
next
  case False
  assume "n < 2 ^ 53"
  with bitLength_bounds[OF False] have "(2::nat) ^ (bitLength n - 1) < 2 ^ 53"
    by linarith
  then have "bitLength n - 1 < 53"
    by (rule power_less_imp_less_exp[rotated]) simp
  then have "bitLength n \<le> 53" by linarith
  then show ?thesis
    by (simp add: toDouble_def)
qed

lemma toDouble_huge:
  assumes "2 ^ 1024 \<le> n"
  shows "toDouble n = None"
proof -
  have n0: "n \<noteq> 0" using assms by auto
  let ?b = "bitLength n"
  let ?e = "?b - 53"
  from bitLength_bounds[OF n0] have low: "2 ^ (?b - 1) \<le> n" and up: "n < 2 ^ ?b"
    by blast+
  from assms up have "(2::nat) ^ 1024 < 2 ^ ?b" by linarith
  then have big: "1024 < ?b"
    by (rule power_less_imp_less_exp[rotated]) simp
  have split: "?b - 1 = 52 + ?e" using big by linarith
  have "(2::nat) ^ 52 * 2 ^ ?e \<le> n"
    using low unfolding split by (simp only: power_add)
  then have q: "2 ^ 52 \<le> n div 2 ^ ?e"
    by (simp only: less_eq_div_iff_mult_less_eq zero_less_power zero_less_numeral)
  have "(2::nat) ^ 1024 \<le> 2 ^ (52 + ?e)"
    using big by (intro power_increasing) linarith+
  also have "\<dots> = 2 ^ 52 * 2 ^ ?e" by (simp only: power_add)
  also have "\<dots> \<le> (n div 2 ^ ?e) * 2 ^ ?e"
    using q by (rule mult_right_mono) simp
  finally have v: "2 ^ 1024 \<le> (n div 2 ^ ?e) * 2 ^ ?e" .
  have "(n div 2 ^ ?e) * 2 ^ ?e \<le> (n div 2 ^ ?e + 1) * 2 ^ ?e"
    by (rule mult_right_mono) simp_all
  with v have v': "2 ^ 1024 \<le> (n div 2 ^ ?e + 1) * 2 ^ ?e"
    by (rule order_trans)
  have nb: "\<not> ?b \<le> 53" using big by linarith
  show ?thesis
    unfolding toDouble_def Let_def
    by (simp only: nb if_False v v' if_True simp_thms split: if_split)
qed

lemma digitsValue_nines:
  "digitsValue acc (replicate k 57) = (acc + 1) * 10 ^ k - 1"
proof (induction k arbitrary: acc)
  case 0
  show ?case by simp
next
  case (Suc k)
  have "digitsValue acc (replicate (Suc k) 57) = digitsValue (10 * acc + 9) (replicate k 57)"
    by simp
  also have "\<dots> = (10 * acc + 9 + 1) * 10 ^ k - 1"
    by (rule Suc.IH)
  also have "\<dots> = (acc + 1) * 10 ^ Suc k - 1"
    by (simp add: algebra_simps)
  finally show ?case .
qed

lemma parseInt10_nines: "parseInt10 (replicate 310 57) = PosInfinity"
proof -
  have shape: "replicate 310 57 = 57 # replicate 309 (57::nat)"
    by (simp add: replicate_Suc[symmetric] del: replicate_Suc)
  have digits: "takeWhile isDigit (57 # replicate 309 57) = replicate 310 57"
    using shape by (simp add: isDigit_def takeWhile_replicate)
  have "(2::nat) ^ 1024 \<le> 10 ^ 310 - 1" by simp
  then have "toDouble (10 ^ 310 - 1) = None" by (rule toDouble_huge)
  then show ?thesis
    unfolding shape
    by (simp add: parseDigits_def digits digitsValue_nines signedDouble_def isDigit_def
        del: replicate_Suc)
qed

lemma trim_nines: "trim (replicate 310 57) = replicate 310 57"
  by (simp add: trim_def isWhiteSpace_def dropWhile_replicate)

lemma trim_30: "trim (utf16 ''30'') = utf16 ''30''"
  by (simp add: trim_def utf16_def isWhiteSpace_def)

lemma parseInt10_30: "parseInt10 (utf16 ''30'') = Finite 30"
  by (simp add: utf16_def parseDigits_def isDigit_def signedDouble_def toDouble_small)

lemma parseInt10_samples:
  "trim (utf16 ''abc'') = utf16 ''abc''" "parseInt10 (utf16 ''abc'') = NaN"
  "trim (utf16 ''0'') = utf16 ''0''" "parseInt10 (utf16 ''0'') = Finite 0"
  "trim (utf16 ''-5'') = utf16 ''-5''" "parseInt10 (utf16 ''-5'') = Finite (- 5)"
  "trim (utf16 '' 30 '') = utf16 ''30''"
  "trim (utf16 ''   '') = []"
  by (simp_all add: trim_def isWhiteSpace_def utf16_def parseDigits_def isDigit_def
      signedDouble_def toDouble_small)

subsection \<open>The lookup at sample keys\<close>

lemma ascii_lower:
  assumes "\<forall>s. list_all (\<lambda>c. c < 128) s \<longrightarrow> lower s = asciiLower s"
  shows "lower (utf16 ''telegram'') = utf16 ''telegram''"
    and "lower (utf16 ''Telegram'') = utf16 ''telegram''"
    and "lower (utf16 ''slack'') = utf16 ''slack''"
    and "lower (utf16 ''dm'') = utf16 ''dm''"
    and "lower (utf16 ''Direct'') = utf16 ''direct''"
    and "lower (utf16 ''direct'') = utf16 ''direct''"
    and "lower (utf16 ''group'') = utf16 ''group''"
    and "lower (utf16 ''channel'') = utf16 ''channel''"
    and "lower (utf16 ''other'') = utf16 ''other''"
  using assms by (simp_all add: utf16_def asciiLower_def)

lemma sample_key_parts:
  "filter (\<lambda>p. p \<noteq> []) (js_split 58 telegramDmKey)
     = [utf16 ''agent'', utf16 ''main'', utf16 ''telegram'', utf16 ''dm'', utf16 ''4711'']"
  "filter (\<lambda>p. p \<noteq> []) (js_split 58 (utf16 ''agent:main:Telegram:Direct:4711:Topic:9''))
     = [utf16 ''agent'', utf16 ''main'', utf16 ''Telegram'', utf16 ''Direct'', utf16 ''4711'',
        utf16 ''Topic'', utf16 ''9'']"
  "filter (\<lambda>p. p \<noteq> []) (js_split 58 (utf16 ''telegram:direct:9999''))
     = [utf16 ''telegram'', utf16 ''direct'', utf16 ''9999'']"
  "filter (\<lambda>p. p \<noteq> []) (js_split 58 (utf16 ''slack:channel:dev:thread:12''))
     = [utf16 ''slack'', utf16 ''channel'', utf16 ''dev'', utf16 ''thread'', utf16 ''12'']"
  "filter (\<lambda>p. p \<noteq> []) (js_split 58 (utf16 ''slack:group:dev''))
     = [utf16 ''slack'', utf16 ''group'', utf16 ''dev'']"
  "filter (\<lambda>p. p \<noteq> []) (js_split 58 (utf16 ''slack:other:dev''))
     = [utf16 ''slack'', utf16 ''other'', utf16 ''dev'']"
  by (simp_all add: telegramDmKey_def utf16_def)

lemma sample_user_ids:
  "stripThreadSuffix (utf16 ''4711'') = utf16 ''4711''"
  "stripThreadSuffix (utf16 ''4711:Topic:9'') = utf16 ''4711''"
  "stripThreadSuffix (utf16 ''9999'') = utf16 ''9999''"
  "stripThreadSuffix (utf16 ''dev:thread:12'') = utf16 ''dev''"
  "stripThreadSuffix (utf16 ''dev'') = utf16 ''dev''"
  "stripThreadSuffix (utf16 ''dev:thread:'') = utf16 ''dev:thread:''"
  by (simp_all add: stripThreadSuffix_def threadSuffixMatch_def utf16_def isDigit_def
      asciiLower_def isLineTerminator_def Let_def)

lemma sample_keys_nonempty:
  "telegramDmKey \<noteq> []"
  "utf16 ''agent:main:Telegram:Direct:4711:Topic:9'' \<noteq> []"
  by (simp_all add: telegramDmKey_def)

lemma lookup_direct:
  assumes "\<forall>s. list_all (\<lambda>c. c < 128) s \<longrightarrow> lower s = asciiLower s"
  shows "getHistoryLimitFromSessionKey lower (Some (utf16 ''agent:main:Telegram:Direct:4711:Topic:9''))
           (Some (channelConfig (utf16 ''telegram'') h d (utf16 ''4711'') ov))
         = (case ov of Some x \<Rightarrow> Some x | None \<Rightarrow> d)"
    and "getHistoryLimitFromSessionKey lower (Some telegramDmKey)
           (Some (channelConfig (utf16 ''telegram'') h d (utf16 ''4711'') ov))
         = (case ov of Some x \<Rightarrow> Some x | None \<Rightarrow> d)"
    and "getHistoryLimitFromSessionKey lower (Some (utf16 ''telegram:direct:9999''))
           (Some (channelConfig (utf16 ''telegram'') h d (utf16 ''4711'') ov)) = d"
    and "getHistoryLimitFromSessionKey lower (Some telegramDmKey)
           (Some (channelConfig (utf16 ''slack'') h d (utf16 ''4711'') ov)) = None"
  unfolding getHistoryLimitFromSessionKey_def
  by (simp_all add: sample_key_parts sample_user_ids sample_keys_nonempty ascii_lower[OF assms]
      resolveProviderConfig_def channelConfig_def perDmLimit_def utf16_append Let_def
      split: option.splits)

lemma lookup_channel:
  assumes "\<forall>s. list_all (\<lambda>c. c < 128) s \<longrightarrow> lower s = asciiLower s"
  shows "getHistoryLimitFromSessionKey lower (Some (utf16 ''slack:channel:dev:thread:12''))
           (Some (channelConfig (utf16 ''slack'') h d (utf16 ''dev'') ov)) = h"
    and "getHistoryLimitFromSessionKey lower (Some (utf16 ''slack:group:dev''))
           (Some (channelConfig (utf16 ''slack'') h d (utf16 ''dev'') ov)) = h"
    and "getHistoryLimitFromSessionKey lower (Some (utf16 ''slack:other:dev''))
           (Some (channelConfig (utf16 ''slack'') h d (utf16 ''dev'') ov)) = None"
  unfolding getHistoryLimitFromSessionKey_def
  by (simp_all add: sample_key_parts sample_user_ids ascii_lower[OF assms]
      resolveProviderConfig_def channelConfig_def perDmLimit_def utf16_append Let_def)

lemma lookup_absent:
  "getHistoryLimitFromSessionKey lower None cfg = None"
  "getHistoryLimitFromSessionKey lower key None = None"
  "getHistoryLimitFromSessionKey lower (Some []) cfg = None"
  by (simp_all add: getHistoryLimitFromSessionKey_def split: option.splits)

lemma telegram_configured:
  "getHistoryLimitFromSessionKey asciiLower (Some telegramDmKey) (Some (telegramConfig n)) = Some n"
proof -
  have low: "asciiLower (utf16 ''telegram'') = utf16 ''telegram''"
       "asciiLower (utf16 ''dm'') = utf16 ''dm''"
    by (simp_all add: asciiLower_def utf16_def)
  show ?thesis
    unfolding getHistoryLimitFromSessionKey_def
    by (simp add: sample_keys_nonempty sample_key_parts low sample_user_ids resolveProviderConfig_def
        telegramConfig_def perDmLimit_def Let_def)
qed

subsection \<open>The ceiling\<close>

lemma resolve_no_ceiling:
  assumes "envVar = None
     \<or> (\<exists>s. envVar = Some s
              \<and> (trim s = [] \<or> parseInt10 (trim s) = NaN \<or> parseInt10 (trim s) = PosInfinity
                  \<or> parseInt10 (trim s) = NegInfinity
                  \<or> (\<exists>e. parseInt10 (trim s) = Finite e \<and> e \<le> 0)))"
  shows "resolveEffectiveHistoryLimit lower envVar key cfg = getHistoryLimitFromSessionKey lower key cfg"
  using assms
  by (auto simp: resolveEffectiveHistoryLimit_def Let_def split: option.splits jsnum.splits)

lemma resolve_ceiling:
  assumes "envVar = Some s" "trim s \<noteq> []" "parseInt10 (trim s) = Finite c" "0 < c"
  shows "resolveEffectiveHistoryLimit lower envVar key cfg =
           (case getHistoryLimitFromSessionKey lower key cfg of
              Some l \<Rightarrow> Some (min l c)
            | None \<Rightarrow> Some c)"
  using assms
  by (simp add: resolveEffectiveHistoryLimit_def Let_def split: option.splits)

lemma resolve_never_raises:
  assumes "getHistoryLimitFromSessionKey lower key cfg = Some l"
  shows "\<exists>r. resolveEffectiveHistoryLimit lower envVar key cfg = Some r \<and> r \<le> l"
  using assms
  by (auto simp: resolveEffectiveHistoryLimit_def Let_def split: option.splits jsnum.splits)

text \<open>
  Claim C7. \<open>lower\<close> stands for \<^verbatim>\<open>String.prototype.toLowerCase\<close>. When the variable is
  unset or blank, or its text is not a positive finite number (no digits, zero, a
  negative number, or digits beyond the range of a double), the function returns the
  configured limit of the session unchanged. When the text parses to a positive finite
  ceiling \<open>c\<close>, it returns the smaller of the configured limit and \<open>c\<close>, and \<open>c\<close> when no
  limit is configured. Whatever the variable holds, a configured limit is never raised.
  A configured 50 under the ceiling 30 gives 30, a configured 20 gives 20. The configured
  limit is the per-user override of a direct message, else the direct-message default,
  and the provider's \<^verbatim>\<open>historyLimit\<close> for a channel or group; the provider and the kind are
  lowercased, an \<^verbatim>\<open>agent:<id>:\<close> prefix is skipped and a thread or topic suffix of the user
  id is stripped before the lookup.
\<close>

theorem resolveEffectiveHistoryLimit_ceiling:
  "(envVar = None
     \<or> (\<exists>s. envVar = Some s
              \<and> (trim s = [] \<or> parseInt10 (trim s) = NaN \<or> parseInt10 (trim s) = PosInfinity
                  \<or> parseInt10 (trim s) = NegInfinity
                  \<or> (\<exists>e. parseInt10 (trim s) = Finite e \<and> e \<le> 0)))
      \<longrightarrow> resolveEffectiveHistoryLimit lower envVar key cfg
            = getHistoryLimitFromSessionKey lower key cfg)
   \<and> (\<forall>s c. envVar = Some s \<and> trim s \<noteq> [] \<and> parseInt10 (trim s) = Finite c \<and> 0 < c \<longrightarrow>
         resolveEffectiveHistoryLimit lower envVar key cfg =
           (case getHistoryLimitFromSessionKey lower key cfg of
              Some l \<Rightarrow> Some (min l c)
            | None \<Rightarrow> Some c))
   \<and> (\<forall>l. getHistoryLimitFromSessionKey lower key cfg = Some l \<longrightarrow>
         (\<exists>r. resolveEffectiveHistoryLimit lower envVar key cfg = Some r \<and> r \<le> l))
   \<and> (envVar = Some (utf16 ''30'') \<and> getHistoryLimitFromSessionKey lower key cfg = Some 50
        \<longrightarrow> resolveEffectiveHistoryLimit lower envVar key cfg = Some 30)
   \<and> (envVar = Some (utf16 ''30'') \<and> getHistoryLimitFromSessionKey lower key cfg = Some 20
        \<longrightarrow> resolveEffectiveHistoryLimit lower envVar key cfg = Some 20)
   \<and> (envVar = Some (replicate 310 57)
        \<longrightarrow> resolveEffectiveHistoryLimit lower envVar key cfg
              = getHistoryLimitFromSessionKey lower key cfg)
   \<and> ((\<forall>s. list_all (\<lambda>c. c < 128) s \<longrightarrow> lower s = asciiLower s) \<longrightarrow>
         resolveEffectiveHistoryLimit lower None
           (Some (utf16 ''agent:main:Telegram:Direct:4711:Topic:9''))
           (Some (channelConfig (utf16 ''telegram'') h d (utf16 ''4711'') ov))
           = (case ov of Some x \<Rightarrow> Some x | None \<Rightarrow> d)
       \<and> resolveEffectiveHistoryLimit lower None (Some (utf16 ''agent:main:telegram:dm:4711''))
           (Some (channelConfig (utf16 ''telegram'') h d (utf16 ''4711'') ov))
           = (case ov of Some x \<Rightarrow> Some x | None \<Rightarrow> d)
       \<and> resolveEffectiveHistoryLimit lower None (Some (utf16 ''telegram:direct:9999''))
           (Some (channelConfig (utf16 ''telegram'') h d (utf16 ''4711'') ov)) = d
       \<and> resolveEffectiveHistoryLimit lower None (Some (utf16 ''agent:main:telegram:dm:4711''))
           (Some (channelConfig (utf16 ''slack'') h d (utf16 ''4711'') ov)) = None
       \<and> resolveEffectiveHistoryLimit lower None (Some (utf16 ''slack:channel:dev:thread:12''))
           (Some (channelConfig (utf16 ''slack'') h d (utf16 ''dev'') ov)) = h
       \<and> resolveEffectiveHistoryLimit lower None (Some (utf16 ''slack:group:dev''))
           (Some (channelConfig (utf16 ''slack'') h d (utf16 ''dev'') ov)) = h
       \<and> resolveEffectiveHistoryLimit lower None (Some (utf16 ''slack:other:dev''))
           (Some (channelConfig (utf16 ''slack'') h d (utf16 ''dev'') ov)) = None)"
proof (intro conjI impI allI)
  assume "envVar = None
     \<or> (\<exists>s. envVar = Some s
              \<and> (trim s = [] \<or> parseInt10 (trim s) = NaN \<or> parseInt10 (trim s) = PosInfinity
                  \<or> parseInt10 (trim s) = NegInfinity
                  \<or> (\<exists>e. parseInt10 (trim s) = Finite e \<and> e \<le> 0)))"
  then show "resolveEffectiveHistoryLimit lower envVar key cfg
            = getHistoryLimitFromSessionKey lower key cfg"
    by (rule resolve_no_ceiling)
next
  fix s c
  assume "envVar = Some s \<and> trim s \<noteq> [] \<and> parseInt10 (trim s) = Finite c \<and> 0 < c"
  then show "resolveEffectiveHistoryLimit lower envVar key cfg =
           (case getHistoryLimitFromSessionKey lower key cfg of
              Some l \<Rightarrow> Some (min l c)
            | None \<Rightarrow> Some c)"
    using resolve_ceiling[of envVar s c lower key cfg] by blast
next
  fix l
  assume "getHistoryLimitFromSessionKey lower key cfg = Some l"
  then show "\<exists>r. resolveEffectiveHistoryLimit lower envVar key cfg = Some r \<and> r \<le> l"
    by (rule resolve_never_raises)
next
  assume "envVar = Some (utf16 ''30'') \<and> getHistoryLimitFromSessionKey lower key cfg = Some 50"
  then show "resolveEffectiveHistoryLimit lower envVar key cfg = Some 30"
    using resolve_ceiling[of envVar "utf16 ''30''" 30 lower key cfg]
    by (simp add: trim_30 parseInt10_30)
next
  assume "envVar = Some (utf16 ''30'') \<and> getHistoryLimitFromSessionKey lower key cfg = Some 20"
  then show "resolveEffectiveHistoryLimit lower envVar key cfg = Some 20"
    using resolve_ceiling[of envVar "utf16 ''30''" 30 lower key cfg]
    by (simp add: trim_30 parseInt10_30)
next
  assume "envVar = Some (replicate 310 57)"
  then show "resolveEffectiveHistoryLimit lower envVar key cfg
              = getHistoryLimitFromSessionKey lower key cfg"
    by (intro resolve_no_ceiling) (simp add: trim_nines parseInt10_nines del: replicate_Suc)
next
  assume a: "\<forall>s. list_all (\<lambda>c. c < 128) s \<longrightarrow> lower s = asciiLower s"
  show "resolveEffectiveHistoryLimit lower None
           (Some (utf16 ''agent:main:Telegram:Direct:4711:Topic:9''))
           (Some (channelConfig (utf16 ''telegram'') h d (utf16 ''4711'') ov))
           = (case ov of Some x \<Rightarrow> Some x | None \<Rightarrow> d)"
    by (simp add: resolve_no_ceiling lookup_direct(1)[OF a])
next
  assume a: "\<forall>s. list_all (\<lambda>c. c < 128) s \<longrightarrow> lower s = asciiLower s"
  show "resolveEffectiveHistoryLimit lower None (Some (utf16 ''agent:main:telegram:dm:4711''))
           (Some (channelConfig (utf16 ''telegram'') h d (utf16 ''4711'') ov))
           = (case ov of Some x \<Rightarrow> Some x | None \<Rightarrow> d)"
    using lookup_direct(2)[OF a, of h d ov] by (simp add: resolve_no_ceiling telegramDmKey_def)
next
  assume a: "\<forall>s. list_all (\<lambda>c. c < 128) s \<longrightarrow> lower s = asciiLower s"
  show "resolveEffectiveHistoryLimit lower None (Some (utf16 ''telegram:direct:9999''))
           (Some (channelConfig (utf16 ''telegram'') h d (utf16 ''4711'') ov)) = d"
    by (simp add: resolve_no_ceiling lookup_direct(3)[OF a])
next
  assume a: "\<forall>s. list_all (\<lambda>c. c < 128) s \<longrightarrow> lower s = asciiLower s"
  show "resolveEffectiveHistoryLimit lower None (Some (utf16 ''agent:main:telegram:dm:4711''))
           (Some (channelConfig (utf16 ''slack'') h d (utf16 ''4711'') ov)) = None"
    using lookup_direct(4)[OF a, of h d ov] by (simp add: resolve_no_ceiling telegramDmKey_def)
next
  assume a: "\<forall>s. list_all (\<lambda>c. c < 128) s \<longrightarrow> lower s = asciiLower s"
  show "resolveEffectiveHistoryLimit lower None (Some (utf16 ''slack:channel:dev:thread:12''))
           (Some (channelConfig (utf16 ''slack'') h d (utf16 ''dev'') ov)) = h"
    by (simp add: resolve_no_ceiling lookup_channel(1)[OF a])
next
  assume a: "\<forall>s. list_all (\<lambda>c. c < 128) s \<longrightarrow> lower s = asciiLower s"
  show "resolveEffectiveHistoryLimit lower None (Some (utf16 ''slack:group:dev''))
           (Some (channelConfig (utf16 ''slack'') h d (utf16 ''dev'') ov)) = h"
    by (simp add: resolve_no_ceiling lookup_channel(2)[OF a])
next
  assume a: "\<forall>s. list_all (\<lambda>c. c < 128) s \<longrightarrow> lower s = asciiLower s"
  show "resolveEffectiveHistoryLimit lower None (Some (utf16 ''slack:other:dev''))
           (Some (channelConfig (utf16 ''slack'') h d (utf16 ''dev'') ov)) = None"
    by (simp add: resolve_no_ceiling lookup_channel(3)[OF a])
qed

theorem resolveEffectiveHistoryLimit_ceiling_witness:
  "resolveEffectiveHistoryLimit asciiLower None (Some telegramDmKey) (Some (telegramConfig 50)) = Some 50
   \<and> resolveEffectiveHistoryLimit asciiLower (Some (utf16 ''   '')) (Some telegramDmKey)
        (Some (telegramConfig 50)) = Some 50
   \<and> resolveEffectiveHistoryLimit asciiLower (Some (utf16 ''abc'')) (Some telegramDmKey)
        (Some (telegramConfig 50)) = Some 50
   \<and> resolveEffectiveHistoryLimit asciiLower (Some (utf16 ''0'')) (Some telegramDmKey)
        (Some (telegramConfig 50)) = Some 50
   \<and> resolveEffectiveHistoryLimit asciiLower (Some (utf16 ''-5'')) (Some telegramDmKey)
        (Some (telegramConfig 50)) = Some 50
   \<and> resolveEffectiveHistoryLimit asciiLower (Some (replicate 310 57)) (Some telegramDmKey)
        (Some (telegramConfig 50)) = Some 50
   \<and> resolveEffectiveHistoryLimit asciiLower (Some (replicate 310 57)) (Some telegramDmKey) None = None
   \<and> resolveEffectiveHistoryLimit asciiLower (Some (utf16 '' 30 '')) (Some telegramDmKey)
        (Some (telegramConfig 50)) = Some 30
   \<and> resolveEffectiveHistoryLimit asciiLower (Some (utf16 ''30'')) (Some telegramDmKey)
        (Some (telegramConfig 50)) = Some 30
   \<and> resolveEffectiveHistoryLimit asciiLower (Some (utf16 ''30'')) (Some telegramDmKey)
        (Some (telegramConfig 20)) = Some 20
   \<and> resolveEffectiveHistoryLimit asciiLower (Some (utf16 ''30'')) (Some telegramDmKey) None = Some 30
   \<and> resolveEffectiveHistoryLimit asciiLower None
        (Some (utf16 ''agent:main:Telegram:Direct:4711:Topic:9''))
        (Some (channelConfig (utf16 ''telegram'') (Some 7) (Some 50) (utf16 ''4711'') (Some 12))) = Some 12
   \<and> resolveEffectiveHistoryLimit asciiLower None (Some (utf16 ''telegram:direct:9999''))
        (Some (channelConfig (utf16 ''telegram'') (Some 7) (Some 50) (utf16 ''4711'') (Some 12))) = Some 50
   \<and> resolveEffectiveHistoryLimit asciiLower None (Some (utf16 ''slack:channel:dev:thread:12''))
        (Some (channelConfig (utf16 ''slack'') (Some 7) (Some 50) (utf16 ''dev'') (Some 12))) = Some 7"
proof -
  let ?k = "Some telegramDmKey"
  have none: "getHistoryLimitFromSessionKey asciiLower ?k None = None"
    by (simp add: lookup_absent)
  note th = resolveEffectiveHistoryLimit_ceiling[where lower = asciiLower and key = ?k]
  have unset: "resolveEffectiveHistoryLimit asciiLower None ?k (Some (telegramConfig 50)) = Some 50"
    using th[of None "Some (telegramConfig 50)"] by (simp add: telegram_configured)
  have blank: "resolveEffectiveHistoryLimit asciiLower (Some (utf16 ''   '')) ?k
        (Some (telegramConfig 50)) = Some 50"
    using th[of "Some (utf16 ''   '')" "Some (telegramConfig 50)"]
    by (simp add: telegram_configured parseInt10_samples)
  have abc: "resolveEffectiveHistoryLimit asciiLower (Some (utf16 ''abc'')) ?k
        (Some (telegramConfig 50)) = Some 50"
    using th[of "Some (utf16 ''abc'')" "Some (telegramConfig 50)"]
    by (simp add: telegram_configured parseInt10_samples)
  have zero: "resolveEffectiveHistoryLimit asciiLower (Some (utf16 ''0'')) ?k
        (Some (telegramConfig 50)) = Some 50"
    using th[of "Some (utf16 ''0'')" "Some (telegramConfig 50)"]
    by (simp add: telegram_configured parseInt10_samples)
  have minus: "resolveEffectiveHistoryLimit asciiLower (Some (utf16 ''-5'')) ?k
        (Some (telegramConfig 50)) = Some 50"
    using th[of "Some (utf16 ''-5'')" "Some (telegramConfig 50)"]
    by (simp add: telegram_configured parseInt10_samples)
  have huge: "resolveEffectiveHistoryLimit asciiLower (Some (replicate 310 57)) ?k
        (Some (telegramConfig 50)) = Some 50"
    using th[of "Some (replicate 310 57)" "Some (telegramConfig 50)"]
    by (simp add: telegram_configured del: replicate_Suc)
  have huge_none: "resolveEffectiveHistoryLimit asciiLower (Some (replicate 310 57)) ?k None = None"
    using th[of "Some (replicate 310 57)" None]
    by (simp add: none del: replicate_Suc)
  have spaced: "resolveEffectiveHistoryLimit asciiLower (Some (utf16 '' 30 '')) ?k
        (Some (telegramConfig 50)) = Some 30"
    using th[of "Some (utf16 '' 30 '')" "Some (telegramConfig 50)"]
    by (simp add: telegram_configured parseInt10_samples parseInt10_30)
  have fifty: "resolveEffectiveHistoryLimit asciiLower (Some (utf16 ''30'')) ?k
        (Some (telegramConfig 50)) = Some 30"
    using th[of "Some (utf16 ''30'')" "Some (telegramConfig 50)"]
    by (simp add: telegram_configured)
  have twenty: "resolveEffectiveHistoryLimit asciiLower (Some (utf16 ''30'')) ?k
        (Some (telegramConfig 20)) = Some 20"
    using th[of "Some (utf16 ''30'')" "Some (telegramConfig 20)"]
    by (simp add: telegram_configured)
  have unconfigured: "resolveEffectiveHistoryLimit asciiLower (Some (utf16 ''30'')) ?k None = Some 30"
    using th[of "Some (utf16 ''30'')" None]
    by (simp add: none trim_30 parseInt10_30)
  have lookups: "resolveEffectiveHistoryLimit asciiLower None
        (Some (utf16 ''agent:main:Telegram:Direct:4711:Topic:9''))
        (Some (channelConfig (utf16 ''telegram'') (Some 7) (Some 50) (utf16 ''4711'') (Some 12))) = Some 12"
     "resolveEffectiveHistoryLimit asciiLower None (Some (utf16 ''telegram:direct:9999''))
        (Some (channelConfig (utf16 ''telegram'') (Some 7) (Some 50) (utf16 ''4711'') (Some 12))) = Some 50"
     "resolveEffectiveHistoryLimit asciiLower None (Some (utf16 ''slack:channel:dev:thread:12''))
        (Some (channelConfig (utf16 ''slack'') (Some 7) (Some 50) (utf16 ''dev'') (Some 12))) = Some 7"
    using resolveEffectiveHistoryLimit_ceiling[where lower = asciiLower and h = "Some 7"
        and d = "Some 50" and ov = "Some 12"]
    by simp_all
  show ?thesis
    using unset blank abc zero minus huge huge_none spaced fifty twenty unconfigured lookups
    by simp
qed

section \<open>The loop detector\<close>

lemma check_match:
  assumes "tracker key = Some e" "messageCount e = mc" "totalChars e = tc"
  shows "checkAndUpdateLoopTracker tracker key mc tc =
           (if 3 \<le> streak e + 1 then Some (loopWarningText key mc tc (streak e + 1)) else None,
            tracker(key \<mapsto> e\<lparr>streak := streak e + 1\<rparr>))"
  using assms by (simp add: checkAndUpdateLoopTracker_def LOOP_STREAK_THRESHOLD_def Let_def)

lemma check_reset:
  assumes "tracker key = None \<or> (\<exists>e. tracker key = Some e \<and> (messageCount e \<noteq> mc \<or> totalChars e \<noteq> tc))"
  shows "checkAndUpdateLoopTracker tracker key mc tc =
           (None, tracker(key \<mapsto> \<lparr>messageCount = mc, totalChars = tc, streak = 1\<rparr>))"
  using assms by (auto simp: checkAndUpdateLoopTracker_def split: option.splits)

lemma check_frame:
  "k' \<noteq> key \<Longrightarrow> snd (checkAndUpdateLoopTracker tracker key mc tc) k' = tracker k'"
  by (simp add: checkAndUpdateLoopTracker_def Let_def split: option.splits)

lemma fresh_run:
  assumes "tracker key = None" "(mc', tc') \<noteq> (mc, tc)"
  shows "observeAll tracker key [(mc, tc), (mc, tc), (mc, tc), (mc, tc), (mc', tc')]
           = ([None, None, Some (loopWarningText key mc tc 3), Some (loopWarningText key mc tc 4), None],
              tracker(key \<mapsto> \<lparr>messageCount = mc', totalChars = tc', streak = 1\<rparr>))"
proof -
  let ?e = "\<lambda>n. \<lparr>messageCount = mc, totalChars = tc, streak = n\<rparr>"
  have 1: "checkAndUpdateLoopTracker tracker key mc tc = (None, tracker(key \<mapsto> ?e 1))"
    using assms(1) by (simp add: check_reset)
  have 2: "checkAndUpdateLoopTracker (tracker(key \<mapsto> ?e 1)) key mc tc = (None, tracker(key \<mapsto> ?e 2))"
    by (simp add: check_match[where e = "?e 1"] eval_nat_numeral)
  have 3: "checkAndUpdateLoopTracker (tracker(key \<mapsto> ?e 2)) key mc tc
             = (Some (loopWarningText key mc tc 3), tracker(key \<mapsto> ?e 3))"
    by (simp add: check_match[where e = "?e 2"] eval_nat_numeral)
  have 4: "checkAndUpdateLoopTracker (tracker(key \<mapsto> ?e 3)) key mc tc
             = (Some (loopWarningText key mc tc 4), tracker(key \<mapsto> ?e 4))"
    by (simp add: check_match[where e = "?e 3"] eval_nat_numeral)
  have 5: "checkAndUpdateLoopTracker (tracker(key \<mapsto> ?e 4)) key mc' tc'
             = (None, tracker(key \<mapsto> \<lparr>messageCount = mc', totalChars = tc', streak = 1\<rparr>))"
    using assms(2) by (subst check_reset) auto
  show ?thesis by (simp only: observeAll.simps Let_def fst_conv snd_conv 1 2 3 4 5)
qed

text \<open>
  Claim C3. An observation yields a warning exactly when it matches the shape stored for
  the key and the streak, once incremented, is at least 3. On a match the streak grows by
  one and the warning names the key, both counts and the streak. A key that is new, or an
  observation that differs from the stored shape, yields no warning and stores the shape
  with streak 1. Other keys are not touched. For a fresh key, four identical observations
  and a differing fifth give: none, none, warning, warning, none, and streak 1.
\<close>

theorem loopDetector_warns_iff:
  "(fst (checkAndUpdateLoopTracker tracker key mc tc) \<noteq> None \<longleftrightarrow>
      (\<exists>e. tracker key = Some e \<and> messageCount e = mc \<and> totalChars e = tc \<and> 3 \<le> streak e + 1))
   \<and> (\<forall>e. tracker key = Some e \<and> messageCount e = mc \<and> totalChars e = tc \<longrightarrow>
         snd (checkAndUpdateLoopTracker tracker key mc tc) key = Some (e\<lparr>streak := streak e + 1\<rparr>)
         \<and> (3 \<le> streak e + 1 \<longrightarrow>
              fst (checkAndUpdateLoopTracker tracker key mc tc)
                = Some (loopWarningText key mc tc (streak e + 1))))
   \<and> (tracker key = None
        \<or> (\<exists>e. tracker key = Some e \<and> (messageCount e \<noteq> mc \<or> totalChars e \<noteq> tc)) \<longrightarrow>
         checkAndUpdateLoopTracker tracker key mc tc
           = (None, tracker(key \<mapsto> \<lparr>messageCount = mc, totalChars = tc, streak = 1\<rparr>)))
   \<and> (\<forall>k'. k' \<noteq> key \<longrightarrow> snd (checkAndUpdateLoopTracker tracker key mc tc) k' = tracker k')
   \<and> (tracker key = None \<and> (mc', tc') \<noteq> (mc, tc) \<longrightarrow>
         observeAll tracker key [(mc, tc), (mc, tc), (mc, tc), (mc, tc), (mc', tc')]
           = ([None, None, Some (loopWarningText key mc tc 3),
               Some (loopWarningText key mc tc 4), None],
              tracker(key \<mapsto> \<lparr>messageCount = mc', totalChars = tc', streak = 1\<rparr>)))"
proof (intro conjI)
  show "fst (checkAndUpdateLoopTracker tracker key mc tc) \<noteq> None \<longleftrightarrow>
      (\<exists>e. tracker key = Some e \<and> messageCount e = mc \<and> totalChars e = tc \<and> 3 \<le> streak e + 1)"
  proof (cases "tracker key")
    case None
    then show ?thesis by (simp add: check_reset)
  next
    case (Some e)
    show ?thesis
    proof (cases "messageCount e = mc \<and> totalChars e = tc")
      case True
      then show ?thesis using Some by (simp add: check_match[where e = e])
    next
      case False
      then have "checkAndUpdateLoopTracker tracker key mc tc
           = (None, tracker(key \<mapsto> \<lparr>messageCount = mc, totalChars = tc, streak = 1\<rparr>))"
        using Some by (intro check_reset) auto
      then show ?thesis using Some False by auto
    qed
  qed
  show "\<forall>e. tracker key = Some e \<and> messageCount e = mc \<and> totalChars e = tc \<longrightarrow>
         snd (checkAndUpdateLoopTracker tracker key mc tc) key = Some (e\<lparr>streak := streak e + 1\<rparr>)
         \<and> (3 \<le> streak e + 1 \<longrightarrow>
              fst (checkAndUpdateLoopTracker tracker key mc tc)
                = Some (loopWarningText key mc tc (streak e + 1)))"
    by (simp add: check_match)
  show "tracker key = None
        \<or> (\<exists>e. tracker key = Some e \<and> (messageCount e \<noteq> mc \<or> totalChars e \<noteq> tc)) \<longrightarrow>
         checkAndUpdateLoopTracker tracker key mc tc
           = (None, tracker(key \<mapsto> \<lparr>messageCount = mc, totalChars = tc, streak = 1\<rparr>))"
    using check_reset by blast
  show "\<forall>k'. k' \<noteq> key \<longrightarrow> snd (checkAndUpdateLoopTracker tracker key mc tc) k' = tracker k'"
    by (simp add: check_frame)
  show "tracker key = None \<and> (mc', tc') \<noteq> (mc, tc) \<longrightarrow>
         observeAll tracker key [(mc, tc), (mc, tc), (mc, tc), (mc, tc), (mc', tc')]
           = ([None, None, Some (loopWarningText key mc tc 3),
               Some (loopWarningText key mc tc 4), None],
              tracker(key \<mapsto> \<lparr>messageCount = mc', totalChars = tc', streak = 1\<rparr>))"
    using fresh_run by blast
qed

theorem loopDetector_warns_iff_witness:
  "Map.empty (utf16 ''s1'') = (None :: loop_entry option) \<and> ((5::nat), (1001::nat)) \<noteq> (5, 1000)
   \<and> observeAll Map.empty (utf16 ''s1'') [(5, 1000), (5, 1000), (5, 1000), (5, 1000), (5, 1001)]
        = ([None, None, Some (loopWarningText (utf16 ''s1'') 5 1000 3),
            Some (loopWarningText (utf16 ''s1'') 5 1000 4), None],
           [utf16 ''s1'' \<mapsto> \<lparr>messageCount = 5, totalChars = 1001, streak = 1\<rparr>])
   \<and> loopWarningText (utf16 ''s1'') 5 1000 3
        = utf16 ''LOOP_BREAK: session s1 has sent the same context (messages=5, chars=1000) 3 times consecutively''"
proof -
  have wtext: "loopWarningText (utf16 ''s1'') 5 1000 3
        = utf16 ''LOOP_BREAK: session s1 has sent the same context (messages=5, chars=1000) 3 times consecutively''"
    by (simp add: loopWarningText_def utf16_def)
  have run: "observeAll Map.empty (utf16 ''s1'') [(5, 1000), (5, 1000), (5, 1000), (5, 1000), (5, 1001)]
        = ([None, None, Some (loopWarningText (utf16 ''s1'') 5 1000 3),
            Some (loopWarningText (utf16 ''s1'') 5 1000 4), None],
           [utf16 ''s1'' \<mapsto> \<lparr>messageCount = 5, totalChars = 1001, streak = 1\<rparr>])"
    using loopDetector_warns_iff[of Map.empty "utf16 ''s1''" 5 1000 5 1001]
    by (simp del: observeAll.simps)
  show ?thesis
    using wtext run by (simp del: observeAll.simps)
qed

section \<open>The message analyzer\<close>

lemma getProp_Inr: "\<not> nullish v \<Longrightarrow> getProp v k = Inr (propOf v k)"
  by (simp add: getProp_def)

lemma getProp_Inl: "nullish v \<Longrightarrow> getProp v k = Inl TypeError"
  by (simp add: getProp_def)

text \<open>
  The analyzer returns exactly on the lists all of whose entries are readable; on every
  other list it throws.
\<close>

lemma countBlocks_returns:
  "(\<exists>n. countBlocks blocks chars = Inr n) \<longleftrightarrow> list_all (\<lambda>b. \<not> nullish b) blocks"
proof (induction blocks arbitrary: chars)
  case Nil
  show ?case by simp
next
  case (Cons b bs)
  show ?case
  proof (cases "nullish b")
    case True
    then show ?thesis by (simp add: getProp_Inl)
  next
    case False
    then show ?thesis
      using Cons.IH by (simp add: getProp_Inr split: jsval.splits)
  qed
qed

lemma countMessageChars_returns:
  "(\<exists>n. countMessageChars m = Inr n) \<longleftrightarrow> readable m"
proof (cases "nullish m")
  case True
  then show ?thesis by (simp add: countMessageChars_def readable_def getProp_Inl)
next
  case False
  then show ?thesis
    using countBlocks_returns[of _ 0]
    by (simp add: countMessageChars_def readable_def getProp_Inr split: jsval.splits)
qed

lemma analyzeLoop_returns:
  "(\<exists>a. analyzeLoop ms tot mx = Inr a) \<longleftrightarrow> list_all readable ms"
proof (induction ms arbitrary: tot mx)
  case Nil
  show ?case by simp
next
  case (Cons m ms)
  show ?case
  proof (cases "countMessageChars m")
    case (Inl e)
    then have "\<not> readable m" using countMessageChars_returns[of m] by auto
    then show ?thesis using Inl by simp
  next
    case (Inr n)
    then have "readable m" using countMessageChars_returns[of m] by auto
    then show ?thesis using Inr Cons.IH by simp
  qed
qed

lemma analyzeMessages_returns:
  "(\<exists>a. analyzeMessages ms = Inr a) \<longleftrightarrow> list_all readable ms"
  by (simp add: analyzeMessages_def analyzeLoop_returns)

text \<open>Entries without text that are neither null nor undefined count as 0.\<close>

lemma analyzeMessages_malformed_zero:
  "analyzeMessages [JNum 7, JStr (utf16 ''text''), JBool True, JArr [], JObj [],
                    message ''user'' (JNum 3), message ''user'' (JArr [JNum 1, JObj []])]
     = Inr \<lparr>totalTextChars = 0, maxMessageTextChars = 0\<rparr>"
  by (simp add: analyzeMessages_def countMessageChars_def getProp_def message_def)

text \<open>
  Claim C5 holds that the analyzer returns on every list, null and undefined entries
  included. The source reads \<^verbatim>\<open>m.content\<close> and \<^verbatim>\<open>b.text\<close> without a guard: a null or
  undefined entry, or such a block in an array content, ends the analysis with a
  TypeError and no counts.
\<close>

theorem analyzeMessages_throws_on_null:
  "analyzeMessages [JNull] = Inl TypeError
   \<and> analyzeMessages [JUndefined] = Inl TypeError
   \<and> analyzeMessages [message ''user'' (JStr (utf16 ''hello'')), JNull] = Inl TypeError
   \<and> analyzeMessages [message ''user'' (JArr [textBlock (utf16 ''hello''), JNull])] = Inl TypeError"
  by (simp add: analyzeMessages_def countMessageChars_def getProp_def message_def textBlock_def)



section \<open>The usage event recorder\<close>

lemma wrapStreamFn_forwards:
  assumes "analyzeMessages (contextMessages ctx) = Inr a"
  shows "\<exists>st'. wrapStreamFn ser params now streamFn model ctx opts (st, world)
           = Inr (fst (streamFn model ctx opts world), st', snd (streamFn model ctx opts world))"
  using assms by (simp add: wrapStreamFn_def Let_def)

lemma wrapStreamFn_throws:
  assumes "analyzeMessages (contextMessages ctx) = Inl e"
  shows "wrapStreamFn ser params now streamFn model ctx opts stw = Inl e"
  using assms by (simp add: wrapStreamFn_def Let_def)

text \<open>
  When every entry of the context's message list is readable, the wrapped function returns the outcome of the call function on the original three
  arguments and the original outer state, and leaves the outer state as that one call left
  it; with a traced call function the trace grows by exactly the one triple of original
  arguments. This holds from every recorder state, so whether the event is recorded with
  stage input or with stage loop_break.
\<close>

theorem wrapStreamFn_transparent:
  "list_all readable (contextMessages ctx) \<longrightarrow>
     (\<exists>st'. wrapStreamFn ser params now streamFn model ctx opts (st, world)
        = Inr (fst (streamFn model ctx opts world), st', snd (streamFn model ctx opts world)))
     \<and> (\<exists>st'. wrapStreamFn ser params now (traced streamFn) model ctx opts (st, (calls, world))
        = Inr (fst (streamFn model ctx opts world), st',
               (calls @ [(model, ctx, opts)], snd (streamFn model ctx opts world))))"
proof
  assume "list_all readable (contextMessages ctx)"
  then obtain a where a: "analyzeMessages (contextMessages ctx) = Inr a"
    using analyzeMessages_returns by blast
  have "\<exists>st'. wrapStreamFn ser params now (traced streamFn) model ctx opts (st, (calls, world))
           = Inr (fst (traced streamFn model ctx opts (calls, world)), st',
                  snd (traced streamFn model ctx opts (calls, world)))"
    using a by (rule wrapStreamFn_forwards)
  then have "\<exists>st'. wrapStreamFn ser params now (traced streamFn) model ctx opts (st, (calls, world))
        = Inr (fst (streamFn model ctx opts world), st',
               (calls @ [(model, ctx, opts)], snd (streamFn model ctx opts world)))"
    by (simp add: traced_def Let_def)
  moreover have "\<exists>st'. wrapStreamFn ser params now streamFn model ctx opts (st, world)
        = Inr (fst (streamFn model ctx opts world), st', snd (streamFn model ctx opts world))"
    using a by (rule wrapStreamFn_forwards)
  ultimately show "(\<exists>st'. wrapStreamFn ser params now streamFn model ctx opts (st, world)
        = Inr (fst (streamFn model ctx opts world), st', snd (streamFn model ctx opts world)))
     \<and> (\<exists>st'. wrapStreamFn ser params now (traced streamFn) model ctx opts (st, (calls, world))
        = Inr (fst (streamFn model ctx opts world), st',
               (calls @ [(model, ctx, opts)], snd (streamFn model ctx opts world))))"
    by (intro conjI)
qed

lemma contextMessages_contextOf [simp]: "contextMessages (contextOf ms) = ms"
  by (simp add: contextMessages_def contextOf_def)

lemma readable_message [simp]: "readable (message r (JStr s))"
  by (simp add: readable_def message_def)

lemma primed_warns:
  "\<exists>w. logged (fst (snd (projr (wrapStreamFn constantLine anonymousLogger (utf16 ''2026-01-01T00:00:00.000Z'')
       countingCall () (contextOf [message ''user'' (JStr (utf16 ''hello''))]) () (primedRecorder, 0)))))
     = [LogWarn w]"
  by (simp add: wrapStreamFn_def analyzeMessages_def countMessageChars_def getProp_def message_def
      primedRecorder_def checkAndUpdateLoopTracker_def anonymousLogger_def sessionLabel_def
      LOOP_STREAK_THRESHOLD_def recordEvent_def constantLine_def loopWarningText_def Let_def)

theorem wrapStreamFn_transparent_witness:
  "list_all readable (contextMessages (contextOf [message ''user'' (JStr (utf16 ''hello''))]))
   \<and> (\<exists>st'. wrapStreamFn constantLine anonymousLogger (utf16 ''2026-01-01T00:00:00.000Z'') countingCall ()
               (contextOf [message ''user'' (JStr (utf16 ''hello''))]) () (freshRecorder, 0)
            = Inr (1, st', 1))
   \<and> (\<exists>st'. wrapStreamFn constantLine anonymousLogger (utf16 ''2026-01-01T00:00:00.000Z'')
               (traced countingCall) ()
               (contextOf [message ''user'' (JStr (utf16 ''hello''))]) () (freshRecorder, ([], 0))
            = Inr (1, st', ([((), contextOf [message ''user'' (JStr (utf16 ''hello''))], ())], 1)))
   \<and> (\<exists>st' w. wrapStreamFn constantLine anonymousLogger (utf16 ''2026-01-01T00:00:00.000Z'') countingCall ()
               (contextOf [message ''user'' (JStr (utf16 ''hello''))]) () (primedRecorder, 0)
            = Inr (1, st', 1) \<and> logged st' = [LogWarn w])"
proof -
  let ?ctx = "contextOf [message ''user'' (JStr (utf16 ''hello''))]"
  let ?now = "utf16 ''2026-01-01T00:00:00.000Z''"
  have r: "list_all readable (contextMessages ?ctx)" by simp
  have fresh: "(\<exists>st'. wrapStreamFn constantLine anonymousLogger ?now countingCall () ?ctx ()
                   (freshRecorder, 0) = Inr (1, st', 1))
     \<and> (\<exists>st'. wrapStreamFn constantLine anonymousLogger ?now (traced countingCall) () ?ctx ()
                   (freshRecorder, ([], 0)) = Inr (1, st', ([((), ?ctx, ())], 1)))"
    using wrapStreamFn_transparent[of ?ctx constantLine anonymousLogger ?now countingCall "()" "()"
        freshRecorder 0 "[]"] r
    by (simp add: countingCall_def)
  have "\<exists>st'. wrapStreamFn constantLine anonymousLogger ?now countingCall () ?ctx ()
                   (primedRecorder, 0) = Inr (1, st', 1)"
    using wrapStreamFn_transparent[of ?ctx constantLine anonymousLogger ?now countingCall "()" "()"
        primedRecorder 0 "[]"] r
    by (simp add: countingCall_def)
  then obtain st' where eq: "wrapStreamFn constantLine anonymousLogger ?now countingCall () ?ctx ()
                   (primedRecorder, 0) = Inr (1, st', 1)"
    by blast
  obtain w where "logged (fst (snd (projr (wrapStreamFn constantLine anonymousLogger ?now
       countingCall () ?ctx () (primedRecorder, 0))))) = [LogWarn w]"
    using primed_warns by blast
  with eq have "logged st' = [LogWarn w]" by simp
  with eq have primed: "\<exists>st' w. wrapStreamFn constantLine anonymousLogger ?now countingCall () ?ctx ()
                   (primedRecorder, 0) = Inr (1, st', 1) \<and> logged st' = [LogWarn w]"
    by blast
  from r fresh primed show ?thesis by (intro conjI) blast+
qed

text \<open>
  Claim C1 holds that for every call function and every argument triple the wrapped
  function invokes the call function once and returns its outcome. The source analyses
  \<^verbatim>\<open>context.messages\<close> before the call, with the analyzer whose unguarded read of
  \<^verbatim>\<open>m.content\<close> throws on a null or undefined entry: on a context with such an entry the
  wrapped function throws a TypeError before the call, so the call function is never
  invoked and the outcome is not its own. A context without a message array is read as
  an empty list and the call is forwarded.
\<close>

theorem wrapStreamFn_throws_on_null_entry:
  "wrapStreamFn constantLine anonymousLogger (utf16 ''2026-01-01T00:00:00.000Z'') countingCall ()
     (contextOf [JNull]) () (freshRecorder, 0) = Inl TypeError
   \<and> wrapStreamFn constantLine anonymousLogger (utf16 ''2026-01-01T00:00:00.000Z'')
        (traced countingCall) () (contextOf [JNull]) () (freshRecorder, ([], 0)) = Inl TypeError
   \<and> wrapStreamFn constantLine anonymousLogger (utf16 ''2026-01-01T00:00:00.000Z'') countingCall ()
        (contextOf [message ''user'' (JStr (utf16 ''hello'')), JUndefined]) () (freshRecorder, 0)
       = Inl TypeError
   \<and> (\<exists>st'. wrapStreamFn constantLine anonymousLogger (utf16 ''2026-01-01T00:00:00.000Z'')
              countingCall () JNull () (freshRecorder, 0) = Inr (1, st', 1))"
  by (simp add: wrapStreamFn_def analyzeMessages_def countMessageChars_def getProp_def
      contextMessages_def contextOf_def message_def countingCall_def Let_def)

section \<open>Truncation\<close>

lemma length_TRUNC_SUFFIX [simp]: "length TRUNC_SUFFIX = 47"
  by (simp add: TRUNC_SUFFIX_def)

lemma truncateString_short: "int (length t) \<le> cap \<Longrightarrow> truncateString t cap = t"
  by (simp add: truncateString_def)

lemma truncateString_long:
  assumes "47 \<le> cap" and "cap < int (length t)"
  shows "truncateString t cap = take (nat cap - 47) t @ TRUNC_SUFFIX"
    and "int (length (truncateString t cap)) = cap"
proof -
  have "sliceTo t (cap - 47) = take (nat cap - 47) t"
    using assms by (simp add: sliceTo_def nat_diff_distrib)
  then show "truncateString t cap = take (nat cap - 47) t @ TRUNC_SUFFIX"
    using assms by (simp add: truncateString_def)
  then show "int (length (truncateString t cap)) = cap"
    using assms by (simp add: min_def)
qed

lemma truncateString_idem:
  assumes "47 \<le> cap"
  shows "truncateString (truncateString t cap) cap = truncateString t cap"
proof (cases "int (length t) \<le> cap")
  case True
  then show ?thesis by (simp add: truncateString_short)
next
  case False
  then have "int (length (truncateString t cap)) = cap"
    using assms truncateString_long(2)[of cap t] by simp
  then show ?thesis by (simp add: truncateString_short)
qed

lemma compactMessages_unfold:
  "compactMessages ms opts = windowMessages (windowSize opts) (afterDedupe ms opts)"
  by (simp add: compactMessages_def afterDedupe_def windowSize_def msgCap_def toolCap_def Let_def)

lemma windowMessages_single [simp]: "windowMessages n [m] = [m]"
  by (auto simp: windowMessages_def Let_def)

lemma dedupeSystem_single [simp]: "dedupeSystem {} [m] = [m]"
  by simp

lemma compactMessages_single:
  "compactMessages [m] opts = [compactMessage (msgCap opts) (toolCap opts) m]"
  by (simp add: compactMessages_unfold afterDedupe_def)

lemma set_dedupeSystem: "set (dedupeSystem seen ms) \<subseteq> set ms"
  by (induction ms arbitrary: seen) auto

lemma isNonSystemMessage_iff [simp]: "isNonSystemMessage m \<longleftrightarrow> \<not> isSystemMessage m"
  by (auto simp: isNonSystemMessage_def isSystemMessage_def)

lemma set_sliceFrom: "set (sliceFrom xs b) \<subseteq> set xs"
  by (auto simp: sliceFrom_def dest: in_set_dropD)

lemma set_windowMessages: "set (windowMessages n ms) \<subseteq> set ms"
proof -
  have "set (sliceFrom (filter isNonSystemMessage ms) b) \<subseteq> set ms" for b
    using set_sliceFrom[of "filter isNonSystemMessage ms" b] by auto
  then show ?thesis
    by (auto simp: windowMessages_def Let_def)
qed

lemma set_compactMessages:
  "set (compactMessages ms opts) \<subseteq> compactMessage (msgCap opts) (toolCap opts) ` set ms"
proof -
  have "set (compactMessages ms opts) \<subseteq> set (afterDedupe ms opts)"
    by (simp add: compactMessages_unfold set_windowMessages)
  also have "\<dots> \<subseteq> set (map (compactMessage (msgCap opts) (toolCap opts)) ms)"
    unfolding afterDedupe_def by (rule set_dedupeSystem)
  finally show ?thesis by simp
qed

lemma compactMessage_string:
  assumes "map_of kvs (utf16 ''content'') = Some (JStr t)"
    and "cap = (if isToolRole (propOf (JObj kvs) (utf16 ''role'')) then mt else mm)"
  shows "compactMessage mm mt (JObj kvs)
           = (if truncateString t cap = t then JObj kvs
              else JObj (AList.update (utf16 ''content'') (JStr (truncateString t cap)) kvs))"
  using assms by (simp add: compactMessage_def compactContent_def sameReference_def Let_def)

lemma compactBlock_text:
  assumes "map_of kvs (utf16 ''text'') = Some (JStr t)"
  shows "compactBlock cap (JObj kvs)
           = (if int (length t) \<le> cap then JObj kvs
              else JObj (AList.update (utf16 ''text'') (JStr (truncateString t cap)) kvs))"
  using assms by (simp add: compactBlock_def)

lemma isToolRole_iff:
  "isToolRole r \<longleftrightarrow>
     r \<in> {JStr (utf16 ''toolResult''), JStr (utf16 ''tool''), JStr (utf16 ''function'')}"
  by (auto simp: isToolRole_def)

lemma compactMessage_array:
  assumes "map_of kvs (utf16 ''content'') = Some (JArr blocks)"
    and "cap = (if isToolRole (propOf (JObj kvs) (utf16 ''role'')) then mt else mm)"
  shows "compactMessage mm mt (JObj kvs)
           = JObj (AList.update (utf16 ''content'') (JArr (map (compactBlock cap) blocks)) kvs)"
  using assms by (simp add: compactMessage_def compactContent_def sameReference_def Let_def)

lemma returned_are_compacted:
  "\<forall>x\<in>set (compactMessages ms options). \<exists>m\<in>set ms. compactMessages [m] options = [x]"
  using set_compactMessages[of ms options] by (auto simp: compactMessages_single)

text \<open>
  Claim C8, as amended. The cap applies to each text on its own: a string content, or the
  text of one block of an array content. The cap of a message is \<^verbatim>\<open>maxToolResultChars\<close>
  when its role is toolResult, tool or function, and \<^verbatim>\<open>maxMessageChars\<close> otherwise. For a
  text longer than that cap, and a cap of at least the length of the marker, the
  truncated text is the first (cap - marker length) characters followed by the marker
  and has exactly the length of the cap; \<open>compactMessages\<close> returns the message with that
  text in place of a string content, and, for an array content, with that text in place
  of the block's text, the array keeping its length. Every message that
  \<open>compactMessages\<close> returns for a list is what it returns for one message of the list
  alone.
\<close>

theorem truncation_fits_cap:
  "(int (length TRUNC_SUFFIX) \<le> cap \<and> cap < int (length t)
     \<and> cap = (if propOf (JObj kvs) (utf16 ''role'')
                     \<in> {JStr (utf16 ''toolResult''), JStr (utf16 ''tool''), JStr (utf16 ''function'')}
                then orDefault (maxToolResultChars options) 8000
                else orDefault (maxMessageChars options) 20000)
     \<longrightarrow>
      truncateString t cap = take (nat cap - length TRUNC_SUFFIX) t @ TRUNC_SUFFIX
    \<and> int (length (truncateString t cap)) = cap
    \<and> (map_of kvs (utf16 ''content'') = Some (JStr t) \<longrightarrow>
          compactMessages [JObj kvs] options
            = [JObj (AList.update (utf16 ''content'')
                       (JStr (take (nat cap - length TRUNC_SUFFIX) t @ TRUNC_SUFFIX)) kvs)])
    \<and> (\<forall>blocks i bkvs.
          map_of kvs (utf16 ''content'') = Some (JArr blocks) \<and> i < length blocks
          \<and> blocks ! i = JObj bkvs \<and> map_of bkvs (utf16 ''text'') = Some (JStr t) \<longrightarrow>
          (\<exists>blocks'. compactMessages [JObj kvs] options
                       = [JObj (AList.update (utf16 ''content'') (JArr blocks') kvs)]
                   \<and> length blocks' = length blocks
                   \<and> blocks' ! i
                       = JObj (AList.update (utf16 ''text'')
                                 (JStr (take (nat cap - length TRUNC_SUFFIX) t @ TRUNC_SUFFIX)) bkvs))))
   \<and> (\<forall>x\<in>set (compactMessages ms options). \<exists>m\<in>set ms. compactMessages [m] options = [x])"
proof (intro conjI)
  show "\<forall>x\<in>set (compactMessages ms options). \<exists>m\<in>set ms. compactMessages [m] options = [x]"
    by (rule returned_are_compacted)
next
  let ?role = "propOf (JObj kvs) (utf16 ''role'')"
  show "int (length TRUNC_SUFFIX) \<le> cap \<and> cap < int (length t)
     \<and> cap = (if ?role \<in> {JStr (utf16 ''toolResult''), JStr (utf16 ''tool''), JStr (utf16 ''function'')}
                then orDefault (maxToolResultChars options) 8000
                else orDefault (maxMessageChars options) 20000)
     \<longrightarrow>
      truncateString t cap = take (nat cap - length TRUNC_SUFFIX) t @ TRUNC_SUFFIX
    \<and> int (length (truncateString t cap)) = cap
    \<and> (map_of kvs (utf16 ''content'') = Some (JStr t) \<longrightarrow>
          compactMessages [JObj kvs] options
            = [JObj (AList.update (utf16 ''content'')
                       (JStr (take (nat cap - length TRUNC_SUFFIX) t @ TRUNC_SUFFIX)) kvs)])
    \<and> (\<forall>blocks i bkvs.
          map_of kvs (utf16 ''content'') = Some (JArr blocks) \<and> i < length blocks
          \<and> blocks ! i = JObj bkvs \<and> map_of bkvs (utf16 ''text'') = Some (JStr t) \<longrightarrow>
          (\<exists>blocks'. compactMessages [JObj kvs] options
                       = [JObj (AList.update (utf16 ''content'') (JArr blocks') kvs)]
                   \<and> length blocks' = length blocks
                   \<and> blocks' ! i
                       = JObj (AList.update (utf16 ''text'')
                                 (JStr (take (nat cap - length TRUNC_SUFFIX) t @ TRUNC_SUFFIX)) bkvs)))"
  proof (intro impI)
    assume h: "int (length TRUNC_SUFFIX) \<le> cap \<and> cap < int (length t)
     \<and> cap = (if ?role \<in> {JStr (utf16 ''toolResult''), JStr (utf16 ''tool''), JStr (utf16 ''function'')}
                then orDefault (maxToolResultChars options) 8000
                else orDefault (maxMessageChars options) 20000)"
    then have a: "47 \<le> cap" "cap < int (length t)" by simp_all
    from h have cap: "cap = (if isToolRole ?role then toolCap options else msgCap options)"
      by (simp only: isToolRole_iff toolCap_def msgCap_def)
    have tr: "truncateString t cap = take (nat cap - length TRUNC_SUFFIX) t @ TRUNC_SUFFIX"
      using a truncateString_long(1)[of cap t] by simp
    have len: "int (length (truncateString t cap)) = cap"
      using a truncateString_long(2)[of cap t] by simp
    from len a have ne: "truncateString t cap \<noteq> t" by auto
    have str: "compactMessages [JObj kvs] options
            = [JObj (AList.update (utf16 ''content'')
                       (JStr (take (nat cap - length TRUNC_SUFFIX) t @ TRUNC_SUFFIX)) kvs)]"
      if c: "map_of kvs (utf16 ''content'') = Some (JStr t)"
      using compactMessage_string[OF c cap] ne tr by (simp add: compactMessages_single)
    have arr: "\<exists>blocks'. compactMessages [JObj kvs] options
                       = [JObj (AList.update (utf16 ''content'') (JArr blocks') kvs)]
                   \<and> length blocks' = length blocks
                   \<and> blocks' ! i
                       = JObj (AList.update (utf16 ''text'')
                                 (JStr (take (nat cap - length TRUNC_SUFFIX) t @ TRUNC_SUFFIX)) bkvs)"
      if c: "map_of kvs (utf16 ''content'') = Some (JArr blocks)" and i: "i < length blocks"
        and b: "blocks ! i = JObj bkvs" and bt: "map_of bkvs (utf16 ''text'') = Some (JStr t)"
      for blocks i bkvs
    proof (intro exI conjI)
      show "compactMessages [JObj kvs] options
              = [JObj (AList.update (utf16 ''content'') (JArr (map (compactBlock cap) blocks)) kvs)]"
        using compactMessage_array[OF c cap] by (simp add: compactMessages_single)
      show "length (map (compactBlock cap) blocks) = length blocks" by simp
      have "map (compactBlock cap) blocks ! i = compactBlock cap (JObj bkvs)"
        using i b by simp
      also have "\<dots> = JObj (AList.update (utf16 ''text'') (JStr (truncateString t cap)) bkvs)"
        using a(2) by (simp add: compactBlock_text[OF bt])
      finally show "map (compactBlock cap) blocks ! i
          = JObj (AList.update (utf16 ''text'')
                    (JStr (take (nat cap - length TRUNC_SUFFIX) t @ TRUNC_SUFFIX)) bkvs)"
        by (simp only: tr)
    qed
    from tr len str arr
    show "truncateString t cap = take (nat cap - length TRUNC_SUFFIX) t @ TRUNC_SUFFIX
    \<and> int (length (truncateString t cap)) = cap
    \<and> (map_of kvs (utf16 ''content'') = Some (JStr t) \<longrightarrow>
          compactMessages [JObj kvs] options
            = [JObj (AList.update (utf16 ''content'')
                       (JStr (take (nat cap - length TRUNC_SUFFIX) t @ TRUNC_SUFFIX)) kvs)])
    \<and> (\<forall>blocks i bkvs.
          map_of kvs (utf16 ''content'') = Some (JArr blocks) \<and> i < length blocks
          \<and> blocks ! i = JObj bkvs \<and> map_of bkvs (utf16 ''text'') = Some (JStr t) \<longrightarrow>
          (\<exists>blocks'. compactMessages [JObj kvs] options
                       = [JObj (AList.update (utf16 ''content'') (JArr blocks') kvs)]
                   \<and> length blocks' = length blocks
                   \<and> blocks' ! i
                       = JObj (AList.update (utf16 ''text'')
                                 (JStr (take (nat cap - length TRUNC_SUFFIX) t @ TRUNC_SUFFIX)) bkvs)))"
      by blast
  qed
qed

lemma defaults [simp]: "msgCap defaultOptions = 20000" "toolCap defaultOptions = 8000"
  "windowSize defaultOptions = 60"
  by (simp_all add: msgCap_def toolCap_def windowSize_def defaultOptions_def orDefault_def)

lemma message_fields:
  "message r c = JObj [(utf16 ''role'', JStr (utf16 r)), (utf16 ''content'', c)]"
  "textBlock t = JObj [(utf16 ''type'', JStr (utf16 ''text'')), (utf16 ''text'', JStr t)]"
  by (simp_all add: message_def textBlock_def)

theorem truncation_fits_cap_witness:
  "(47::int) \<le> 20000 \<and> (20000::int) < int (length (replicate 25000 (97::nat)))
   \<and> compactMessages [message ''user'' (JStr (replicate 25000 97))] defaultOptions
        = [message ''user'' (JStr (replicate 19953 97 @ TRUNC_SUFFIX))]
   \<and> length (replicate 19953 (97::nat) @ TRUNC_SUFFIX) = 20000
   \<and> compactMessages [message ''tool'' (JStr (replicate 9000 97))] defaultOptions
        = [message ''tool'' (JStr (replicate 7953 97 @ TRUNC_SUFFIX))]
   \<and> compactMessages [message ''user'' (JStr (replicate 9000 97))] defaultOptions
        = [message ''user'' (JStr (replicate 9000 97))]
   \<and> compactMessages
         [message ''toolResult'' (JArr [textBlock (utf16 ''ok''), textBlock (replicate 9000 97)])]
         defaultOptions
        = [message ''toolResult''
             (JArr [textBlock (utf16 ''ok''), textBlock (replicate 7953 97 @ TRUNC_SUFFIX)])]
   \<and> compactMessages
         [message ''assistant'' (JArr [textBlock (replicate 25000 97), textBlock (utf16 ''ok'')])]
         defaultOptions
        = [message ''assistant''
             (JArr [textBlock (replicate 19953 97 @ TRUNC_SUFFIX), textBlock (utf16 ''ok'')])]"
proof -
  let ?u = "[(utf16 ''role'', JStr (utf16 ''user'')), (utf16 ''content'', JStr (replicate 25000 97))]"
  let ?t = "[(utf16 ''role'', JStr (utf16 ''tool'')), (utf16 ''content'', JStr (replicate 9000 97))]"
  have user: "compactMessages [message ''user'' (JStr (replicate 25000 97))] defaultOptions
        = [message ''user'' (JStr (replicate 19953 97 @ TRUNC_SUFFIX))]"
    using truncation_fits_cap[of 20000 "replicate 25000 97" ?u defaultOptions "[]"]
    by (simp add: message_fields defaultOptions_def orDefault_def)
  have tool: "compactMessages [message ''tool'' (JStr (replicate 9000 97))] defaultOptions
        = [message ''tool'' (JStr (replicate 7953 97 @ TRUNC_SUFFIX))]"
    using truncation_fits_cap[of 8000 "replicate 9000 97" ?t defaultOptions "[]"]
    by (simp add: message_fields defaultOptions_def orDefault_def)
  have short: "compactMessages [message ''user'' (JStr (replicate 9000 97))] defaultOptions
        = [message ''user'' (JStr (replicate 9000 97))]"
    by (simp add: compactMessages_single compactMessage_def compactContent_def sameReference_def
        truncateString_def isToolRole_def message_def Let_def)
  have blocks: "compactMessages
         [message ''toolResult'' (JArr [textBlock (utf16 ''ok''), textBlock (replicate 9000 97)])]
         defaultOptions
        = [message ''toolResult''
             (JArr [textBlock (utf16 ''ok''), textBlock (replicate 7953 97 @ TRUNC_SUFFIX)])]"
       "compactMessages
         [message ''assistant'' (JArr [textBlock (replicate 25000 97), textBlock (utf16 ''ok'')])]
         defaultOptions
        = [message ''assistant''
             (JArr [textBlock (replicate 19953 97 @ TRUNC_SUFFIX), textBlock (utf16 ''ok'')])]"
    by (simp_all add: compactMessages_single compactMessage_def compactContent_def
        compactBlock_def sameReference_def truncateString_def sliceTo_def isToolRole_def
        message_def textBlock_def Let_def)
  show ?thesis
    using user tool short blocks by simp
qed

text \<open>
  A message whose two text blocks hold 15000 characters each has 30000 characters of
  text, more than the cap of 20000, and is returned as it is: no block exceeds the cap.
\<close>

theorem truncation_per_block_counterexample:
  "countMessageChars (message ''user'' (JArr [textBlock (replicate 15000 97), textBlock (replicate 15000 97)]))
     = Inr 30000
   \<and> (20000::nat) < 30000
   \<and> compactMessages [message ''user'' (JArr [textBlock (replicate 15000 97), textBlock (replicate 15000 97)])]
        defaultOptions
      = [message ''user'' (JArr [textBlock (replicate 15000 97), textBlock (replicate 15000 97)])]"
  by (simp add: compactMessages_single compactMessage_def compactContent_def compactBlock_def
      sameReference_def isToolRole_def countMessageChars_def getProp_def message_def textBlock_def)

section \<open>The window: basic facts\<close>

lemma isNonSystemMessage_eq: "isNonSystemMessage = (\<lambda>m. \<not> isSystemMessage m)"
  by (simp add: fun_eq_iff)

lemma windowMessages_off:
  "n \<le> 0 \<or> int (length ys) \<le> n \<Longrightarrow> windowMessages n ys = ys"
  by (auto simp: windowMessages_def)

lemma length_system_split:
  "length (filter isSystemMessage ys) + length (filter (\<lambda>m. \<not> isSystemMessage m) ys) = length ys"
  by (rule sum_length_filter_compl)

lemma windowMessages_on:
  assumes "0 < n" and "n < int (length ys)"
  shows "windowMessages n ys =
           filter isSystemMessage ys
           @ (if int (length (filter isSystemMessage ys)) < n
              then drop (length (filter (\<lambda>m. \<not> isSystemMessage m) ys)
                           - nat (n - int (length (filter isSystemMessage ys))))
                        (filter (\<lambda>m. \<not> isSystemMessage m) ys)
              else filter (\<lambda>m. \<not> isSystemMessage m) ys)"
proof -
  let ?sys = "filter isSystemMessage ys"
  let ?non = "filter (\<lambda>m. \<not> isSystemMessage m) ys"
  have w: "windowMessages n ys = ?sys @ sliceFrom ?non (- max 0 (n - int (length ?sys)))"
    using assms by (simp add: windowMessages_def Let_def isNonSystemMessage_eq)
  show ?thesis
  proof (cases "int (length ?sys) < n")
    case True
    then have neg: "- max 0 (n - int (length ?sys)) < 0"
      by simp
    have idx: "nat (int (length ?non) + - max 0 (n - int (length ?sys)))
                 = length ?non - nat (n - int (length ?sys))"
      using True by (simp add: max_def)
    have "sliceFrom ?non (- max 0 (n - int (length ?sys)))
            = drop (length ?non - nat (n - int (length ?sys))) ?non"
      by (simp only: sliceFrom_def neg if_True idx)
    then show ?thesis using w True by simp
  next
    case False
    then have "sliceFrom ?non (- max 0 (n - int (length ?sys))) = ?non"
      by (simp add: sliceFrom_def)
    then show ?thesis using w False by simp
  qed
qed

lemma windowMessages_fills:
  assumes "0 < n" and "n < int (length ys)" and "int (length (filter isSystemMessage ys)) < n"
  shows "int (length (windowMessages n ys)) = n"
proof -
  let ?sys = "filter isSystemMessage ys"
  let ?non = "filter (\<lambda>m. \<not> isSystemMessage m) ys"
  have "length ?sys + length ?non = length ys" by (rule length_system_split)
  then have "nat (n - int (length ?sys)) \<le> length ?non"
    using assms by linarith
  then have "length (drop (length ?non - nat (n - int (length ?sys))) ?non) = nat (n - int (length ?sys))"
    by simp
  then show ?thesis
    using assms by (simp add: windowMessages_on)
qed

lemma filter_system_window:
  "filter isSystemMessage (windowMessages n ys) = filter isSystemMessage ys"
proof (cases "0 < n \<and> n < int (length ys)")
  case False
  then have "windowMessages n ys = ys" by (intro windowMessages_off) linarith
  then show ?thesis by simp
next
  case True
  have "filter isSystemMessage (drop k (filter (\<lambda>m. \<not> isSystemMessage m) ys)) = []" for k
    by (auto simp: filter_empty_conv dest: in_set_dropD)
  moreover have "filter isSystemMessage (filter (\<lambda>m. \<not> isSystemMessage m) ys) = []"
    by (simp add: filter_empty_conv)
  ultimately show ?thesis
    using True by (simp add: windowMessages_on)
qed

section \<open>Deduplication of system messages\<close>

lemma sysKeys_Nil [simp]: "sysKeys [] = {}"
  by (simp add: sysKeys_def)

lemma sysKeys_Cons [simp]:
  "sysKeys (m # ms) = (if isSystemMessage m then insert (dedupeKey m) (sysKeys ms) else sysKeys ms)"
  by (auto simp: sysKeys_def)

lemma sysKeys_append [simp]: "sysKeys (xs @ ys) = sysKeys xs \<union> sysKeys ys"
  by (auto simp: sysKeys_def)

lemma dedupeSystem_Cons:
  "dedupeSystem seen (m # ms) =
     (if isSystemMessage m then
        (if dedupeKey m \<in> seen then dedupeSystem seen ms
         else m # dedupeSystem (insert (dedupeKey m) seen) ms)
      else m # dedupeSystem seen ms)"
  by (auto simp: isSystemMessage_def)

lemma dedupeSystem_snoc:
  "dedupeSystem seen (xs @ [x]) =
     dedupeSystem seen xs
     @ (if isSystemMessage x \<and> dedupeKey x \<in> seen \<union> sysKeys xs then [] else [x])"
proof (induction xs arbitrary: seen)
  case Nil
  show ?case by (simp add: dedupeSystem_Cons del: dedupeSystem.simps(2))
next
  case (Cons m ms)
  show ?case
  proof (cases "isSystemMessage m")
    case False
    then show ?thesis
      by (simp add: dedupeSystem_Cons Cons.IH del: dedupeSystem.simps(2))
  next
    case sys: True
    show ?thesis
    proof (cases "dedupeKey m \<in> seen")
      case True
      then have "seen \<union> sysKeys (m # ms) = seen \<union> sysKeys ms"
        using sys by auto
      then show ?thesis
        using sys True Cons.IH[of seen]
        by (simp add: dedupeSystem_Cons del: dedupeSystem.simps(2) sysKeys_Cons)
    next
      case False
      have "seen \<union> sysKeys (m # ms) = insert (dedupeKey m) seen \<union> sysKeys ms"
        using sys by auto
      then show ?thesis
        using sys False Cons.IH[of "insert (dedupeKey m) seen"]
        by (simp add: dedupeSystem_Cons del: dedupeSystem.simps(2) sysKeys_Cons)
    qed
  qed
qed

lemma sysKeys_nth:
  "k \<in> sysKeys xs \<longleftrightarrow> (\<exists>j<length xs. isSystemMessage (xs ! j) \<and> dedupeKey (xs ! j) = k)"
  by (auto simp: sysKeys_def in_set_conv_nth)

lemma droppedAt_snoc_old:
  assumes "i < length xs"
  shows "droppedAt (xs @ [x]) i = droppedAt xs i"
proof -
  have same: "(xs @ [x]) ! j = xs ! j" if "j \<le> i" for j
    using that assms by (simp add: nth_append)
  have "(\<exists>j<i. isSystemMessage ((xs @ [x]) ! j) \<and> dedupeKey ((xs @ [x]) ! j) = dedupeKey (xs ! i))
        \<longleftrightarrow> (\<exists>j<i. isSystemMessage (xs ! j) \<and> dedupeKey (xs ! j) = dedupeKey (xs ! i))"
    using same by (metis less_imp_le)
  then show ?thesis
    unfolding droppedAt_def using same[of i] by simp
qed

lemma droppedAt_snoc_new:
  "droppedAt (xs @ [x]) (length xs) \<longleftrightarrow> isSystemMessage x \<and> dedupeKey x \<in> sysKeys xs"
proof -
  have "(\<exists>j<length xs. isSystemMessage ((xs @ [x]) ! j) \<and> dedupeKey ((xs @ [x]) ! j) = dedupeKey x)
        \<longleftrightarrow> (\<exists>j<length xs. isSystemMessage (xs ! j) \<and> dedupeKey (xs ! j) = dedupeKey x)"
    by (metis nth_append)
  then show ?thesis
    unfolding droppedAt_def by (simp add: sysKeys_nth)
qed

lemma dedupeSystem_positions:
  "dedupeSystem {} ms = map ((!) ms) (filter (\<lambda>i. \<not> droppedAt ms i) [0..<length ms])"
proof (induction ms rule: rev_induct)
  case Nil
  show ?case by simp
next
  case (snoc x xs)
  have old: "map ((!) (xs @ [x])) (filter (\<lambda>i. \<not> droppedAt (xs @ [x]) i) [0..<length xs])
               = map ((!) xs) (filter (\<lambda>i. \<not> droppedAt xs i) [0..<length xs])"
  proof -
    have "filter (\<lambda>i. \<not> droppedAt (xs @ [x]) i) [0..<length xs]
            = filter (\<lambda>i. \<not> droppedAt xs i) [0..<length xs]"
      by (rule filter_cong) (simp_all add: droppedAt_snoc_old)
    moreover have "map ((!) (xs @ [x])) (filter (\<lambda>i. \<not> droppedAt xs i) [0..<length xs])
            = map ((!) xs) (filter (\<lambda>i. \<not> droppedAt xs i) [0..<length xs])"
      by (rule map_cong) (simp_all add: nth_append)
    ultimately show ?thesis by simp
  qed
  show ?case
    using snoc.IH old
    by (simp add: dedupeSystem_snoc droppedAt_snoc_new)
qed

lemma droppedAt_first_kept:
  assumes "droppedAt ms i"
  shows "\<exists>j<i. isSystemMessage (ms ! j) \<and> \<not> droppedAt ms j \<and> dedupeKey (ms ! j) = dedupeKey (ms ! i)"
proof -
  let ?P = "\<lambda>j. j < i \<and> isSystemMessage (ms ! j) \<and> dedupeKey (ms ! j) = dedupeKey (ms ! i)"
  from assms have "\<exists>j. ?P j" by (auto simp: droppedAt_def)
  then obtain j where j: "?P j" and least: "\<forall>k<j. \<not> ?P k"
    using exists_least_iff[of ?P] by blast
  have "\<not> droppedAt ms j"
  proof
    assume "droppedAt ms j"
    then obtain k where "k < j" "isSystemMessage (ms ! k)" "dedupeKey (ms ! k) = dedupeKey (ms ! j)"
      by (auto simp: droppedAt_def)
    with j have "?P k" by simp
    with least \<open>k < j\<close> show False by blast
  qed
  with j show ?thesis by blast
qed

lemma dedupeSystem_keeps_others:
  "filter (\<lambda>m. \<not> isSystemMessage m) (dedupeSystem seen ms) = filter (\<lambda>m. \<not> isSystemMessage m) ms"
  by (induction ms arbitrary: seen) (simp_all add: dedupeSystem_Cons del: dedupeSystem.simps(2))

lemma dedupeKey_string:
  "propOf a (utf16 ''content'') = JStr s \<Longrightarrow> propOf b (utf16 ''content'') = JStr s'
     \<Longrightarrow> dedupeKey a = dedupeKey b \<longleftrightarrow> s = s'"
  by (simp add: dedupeKey_def)

lemma isSystemMessage_message [simp]: "isSystemMessage (message r c) \<longleftrightarrow> r = ''system''"
  by (simp add: isSystemMessage_def message_def)

lemma content_message [simp]: "propOf (message r c) (utf16 ''content'') = c"
  by (simp add: message_def)

lemma dedupeKey_message_string [simp]: "dedupeKey (message r (JStr s)) = Some s"
  by (simp add: dedupeKey_def)

lemma dedupe_example:
  "dedupeSystem {} [message ''system'' (JStr s), message ''user'' x, message ''system'' (JStr s)]
     = [message ''system'' (JStr s), message ''user'' x]"
  by (simp add: dedupeSystem_Cons del: dedupeSystem.simps(2))


lemma compactMessage_cases:
  "compactMessage mm mt m = m
   \<or> (\<exists>kvs nc. m = JObj kvs \<and> compactMessage mm mt m = JObj (AList.update (utf16 ''content'') nc kvs))"
  by (cases m) (auto simp: compactMessage_def Let_def)

lemma role_not_content: "utf16 ''role'' \<noteq> utf16 ''content''"
  by simp

lemma isSystemMessage_compactMessage [simp]:
  "isSystemMessage (compactMessage mm mt m) \<longleftrightarrow> isSystemMessage m"
  using compactMessage_cases[of mm mt m] role_not_content
  by (auto simp: isSystemMessage_def update_conv')

lemma system_not_tool: "isSystemMessage m \<Longrightarrow> \<not> isToolRole (propOf m (utf16 ''role''))"
  by (simp add: isSystemMessage_def isToolRole_def)

lemma dedupeKey_compacted:
  assumes sys: "isSystemMessage m" and str: "stringContent m = Some s"
  shows "dedupeKey (compactMessage mm mt m) = Some (truncateString s mm)"
proof -
  from sys obtain kvs where m: "m = JObj kvs"
    by (cases m) (simp_all add: isSystemMessage_def)
  from str m have c: "map_of kvs (utf16 ''content'') = Some (JStr s)"
    by (auto simp: stringContent_def split: option.splits jsval.splits)
  have cap: "mm = (if isToolRole (propOf (JObj kvs) (utf16 ''role'')) then mt else mm)"
    using system_not_tool[OF sys] m by simp
  show ?thesis
    unfolding m compactMessage_string[OF c cap]
    using c by (simp add: dedupeKey_def update_conv')
qed

lemma droppedAt_compacted:
  assumes str: "\<forall>m\<in>set ms. isSystemMessage m \<longrightarrow> stringContent m \<noteq> None"
    and i: "i < length ms"
  shows "droppedAt (map (compactMessage mm mt) ms) i \<longleftrightarrow> repeatedAt mm ms i"
proof -
  have key: "dedupeKey (compactMessage mm mt (ms ! j))
               = map_option (\<lambda>s. truncateString s mm) (stringContent (ms ! j))"
       and some: "stringContent (ms ! j) \<noteq> None"
    if "j \<le> i" "isSystemMessage (ms ! j)" for j
  proof -
    from that i have "ms ! j \<in> set ms" by simp
    with str that show some: "stringContent (ms ! j) \<noteq> None" by blast
    then obtain s where "stringContent (ms ! j) = Some s" by blast
    with dedupeKey_compacted[OF that(2) this]
    show "dedupeKey (compactMessage mm mt (ms ! j))
               = map_option (\<lambda>s. truncateString s mm) (stringContent (ms ! j))"
      by simp
  qed
  have nth: "map (compactMessage mm mt) ms ! j = compactMessage mm mt (ms ! j)" if "j \<le> i" for j
    using that i by simp
  show ?thesis
  proof
    assume d: "droppedAt (map (compactMessage mm mt) ms) i"
    then have si: "isSystemMessage (ms ! i)"
      by (simp add: droppedAt_def nth)
    from d obtain j where j: "j < i" "isSystemMessage (ms ! j)"
        "dedupeKey (compactMessage mm mt (ms ! j)) = dedupeKey (compactMessage mm mt (ms ! i))"
      unfolding droppedAt_def using nth by (metis isSystemMessage_compactMessage less_imp_le order_refl)
    from j si have "map_option (\<lambda>s. truncateString s mm) (stringContent (ms ! j))
                  = map_option (\<lambda>s. truncateString s mm) (stringContent (ms ! i))"
      using key[of j] key[of i] by simp
    with j si some[of j] show "repeatedAt mm ms i"
      unfolding repeatedAt_def by (intro conjI exI[of _ j]) simp_all
  next
    assume r: "repeatedAt mm ms i"
    then have si: "isSystemMessage (ms ! i)"
      by (simp add: repeatedAt_def)
    from r obtain j where j: "j < i" "isSystemMessage (ms ! j)"
        "map_option (\<lambda>s. truncateString s mm) (stringContent (ms ! j))
                  = map_option (\<lambda>s. truncateString s mm) (stringContent (ms ! i))"
      unfolding repeatedAt_def by blast
    from j si have "dedupeKey (compactMessage mm mt (ms ! j)) = dedupeKey (compactMessage mm mt (ms ! i))"
      using key[of j] key[of i] by simp
    with j si show "droppedAt (map (compactMessage mm mt) ms) i"
      unfolding droppedAt_def using nth[of i] nth[of j]
      by (intro conjI exI[of _ j]) simp_all
  qed
qed

lemma afterDedupe_positions:
  assumes str: "\<forall>m\<in>set ms. isSystemMessage m \<longrightarrow> stringContent m \<noteq> None"
  shows "afterDedupe ms opts
           = map (\<lambda>i. compactMessage (msgCap opts) (toolCap opts) (ms ! i))
               (filter (\<lambda>i. \<not> repeatedAt (msgCap opts) ms i) [0..<length ms])"
proof -
  let ?cm = "compactMessage (msgCap opts) (toolCap opts)"
  have f: "filter (\<lambda>i. \<not> droppedAt (map ?cm ms) i) [0..<length ms]
             = filter (\<lambda>i. \<not> repeatedAt (msgCap opts) ms i) [0..<length ms]"
    by (rule filter_cong) (simp_all add: droppedAt_compacted[OF str])
  have "afterDedupe ms opts
          = map ((!) (map ?cm ms)) (filter (\<lambda>i. \<not> droppedAt (map ?cm ms) i) [0..<length ms])"
    unfolding afterDedupe_def using dedupeSystem_positions[of "map ?cm ms"] by simp
  also have "\<dots> = map ((!) (map ?cm ms)) (filter (\<lambda>i. \<not> repeatedAt (msgCap opts) ms i) [0..<length ms])"
    by (simp only: f)
  also have "\<dots> = map (\<lambda>i. ?cm (ms ! i)) (filter (\<lambda>i. \<not> repeatedAt (msgCap opts) ms i) [0..<length ms])"
    by (rule map_cong) simp_all
  finally show ?thesis .
qed

lemma length_afterDedupe: "length (afterDedupe ms opts) \<le> length ms"
proof -
  have "length (dedupeSystem seen xs) \<le> length xs" for seen xs
    by (induction xs arbitrary: seen) (auto simp: le_SucI)
  from this[of "{}" "map (compactMessage (msgCap opts) (toolCap opts)) ms"]
  show ?thesis by (simp add: afterDedupe_def)
qed

lemma compactMessages_window_off:
  assumes "windowSize opts \<le> 0 \<or> int (length ms) \<le> windowSize opts"
  shows "compactMessages ms opts = afterDedupe ms opts"
proof -
  from assms length_afterDedupe[of ms opts]
  have "windowSize opts \<le> 0 \<or> int (length (afterDedupe ms opts)) \<le> windowSize opts"
    by linarith
  then show ?thesis
    by (simp add: compactMessages_unfold windowMessages_off)
qed

lemma compactMessages_system_kept:
  assumes str: "\<forall>m\<in>set ms. isSystemMessage m \<longrightarrow> stringContent m \<noteq> None"
  shows "filter isSystemMessage (compactMessages ms opts)
           = concat (map (\<lambda>i. compactMessages [ms ! i] opts)
               (filter (\<lambda>i. isSystemMessage (ms ! i) \<and> \<not> repeatedAt (msgCap opts) ms i)
                  [0..<length ms]))"
proof -
  have "filter isSystemMessage (compactMessages ms opts) = filter isSystemMessage (afterDedupe ms opts)"
    by (simp add: compactMessages_unfold filter_system_window)
  also have "\<dots> = map (\<lambda>i. compactMessage (msgCap opts) (toolCap opts) (ms ! i))
                     (filter (\<lambda>i. isSystemMessage (ms ! i) \<and> \<not> repeatedAt (msgCap opts) ms i)
                        [0..<length ms])"
    unfolding afterDedupe_positions[OF str] by (simp add: filter_map comp_def conj_commute)
  finally show ?thesis
    by (simp add: compactMessages_single)
qed

lemma compactMessages_all_kept:
  assumes str: "\<forall>m\<in>set ms. isSystemMessage m \<longrightarrow> stringContent m \<noteq> None"
    and off: "windowSize opts \<le> 0 \<or> int (length ms) \<le> windowSize opts"
  shows "compactMessages ms opts
           = concat (map (\<lambda>i. compactMessages [ms ! i] opts)
               (filter (\<lambda>i. \<not> repeatedAt (msgCap opts) ms i) [0..<length ms]))"
  unfolding compactMessages_window_off[OF off] afterDedupe_positions[OF str]
  by (simp add: compactMessages_single)

lemma compactMessages_others_kept:
  assumes off: "windowSize opts \<le> 0 \<or> int (length ms) \<le> windowSize opts"
  shows "filter (\<lambda>m. \<not> isSystemMessage m) (compactMessages ms opts)
           = concat (map (\<lambda>m. compactMessages [m] opts) (filter (\<lambda>m. \<not> isSystemMessage m) ms))"
  unfolding compactMessages_window_off[OF off] afterDedupe_def
  by (simp add: dedupeSystem_keeps_others compactMessages_single filter_map comp_def)

lemma compactMessage_small_blocks:
  "int (length s) \<le> mm \<Longrightarrow> int (length s) \<le> mt
     \<Longrightarrow> compactMessage mm mt (message r (JArr [textBlock s])) = message r (JArr [textBlock s])"
  by (simp add: compactMessage_def compactContent_def compactBlock_def sameReference_def
      message_def textBlock_def Let_def)

lemma compactMessage_short:
  "int (length s) \<le> mm \<Longrightarrow> int (length s) \<le> mt
     \<Longrightarrow> compactMessage mm mt (message r (JStr s)) = message r (JStr s)"
  by (simp add: compactMessage_def compactContent_def sameReference_def truncateString_def
      message_def Let_def)

lemma key_of_block_differs:
  "dedupeKey (message ''system'' (JArr [textBlock (utf16 ''hi'')])) \<noteq> Some (utf16 ''hi'')"
  unfolding dedupeKey_def content_message by (simp add: textBlock_def utf16_def)

lemma compactMessages_examples:
  "compactMessages [message ''system'' (JStr (utf16 ''A'')), message ''user'' (JStr (utf16 ''x'')),
                    message ''system'' (JStr (utf16 ''A''))] defaultOptions
     = [message ''system'' (JStr (utf16 ''A'')), message ''user'' (JStr (utf16 ''x''))]"
  "compactMessages [message ''system'' (JArr [textBlock (utf16 ''hi'')]),
                    message ''user'' (JStr (utf16 ''x'')),
                    message ''system'' (JArr [textBlock (utf16 ''hi'')])] defaultOptions
     = [message ''system'' (JArr [textBlock (utf16 ''hi'')]), message ''user'' (JStr (utf16 ''x''))]"
  "compactMessages [message ''system'' (JStr (utf16 ''hi'')),
                    message ''system'' (JArr [textBlock (utf16 ''hi'')])] defaultOptions
     = [message ''system'' (JStr (utf16 ''hi'')), message ''system'' (JArr [textBlock (utf16 ''hi'')])]"
  using key_of_block_differs
  by (simp_all add: compactMessages_unfold afterDedupe_def compactMessage_short
      compactMessage_small_blocks dedupeSystem_Cons windowMessages_off
      del: dedupeSystem.simps(2))


lemma messageCapOf_resolved [simp]:
  "msgCap (messageCapOf n) = n" "toolCap (messageCapOf n) = 8000" "windowSize (messageCapOf n) = 60"
  by (simp_all add: messageCapOf_def msgCap_def toolCap_def windowSize_def orDefault_def)

lemma stringContent_message [simp]: "stringContent (message r (JStr s)) = Some s"
  by (simp add: stringContent_def)

lemma truncate_long_pair:
  "truncateString (replicate 60 97) 50 = replicate 3 97 @ TRUNC_SUFFIX"
  "truncateString (replicate 59 97 @ [98]) 50 = replicate 3 97 @ TRUNC_SUFFIX"
  by (simp_all add: truncateString_def sliceTo_def)



section \<open>The window\<close>

lemma filter_nonsystem_window_on:
  assumes "0 < n" and "n < int (length ys)"
  shows "filter (\<lambda>m. \<not> isSystemMessage m) (windowMessages n ys)
           = (if int (length (filter isSystemMessage ys)) < n
              then drop (length (filter (\<lambda>m. \<not> isSystemMessage m) ys)
                           - nat (n - int (length (filter isSystemMessage ys))))
                        (filter (\<lambda>m. \<not> isSystemMessage m) ys)
              else filter (\<lambda>m. \<not> isSystemMessage m) ys)"
proof -
  have a: "filter (\<lambda>m. \<not> isSystemMessage m) (drop k (filter (\<lambda>m. \<not> isSystemMessage m) ys))
          = drop k (filter (\<lambda>m. \<not> isSystemMessage m) ys)" for k
    by (rule filter_True) (auto dest: in_set_dropD)
  have b: "filter (\<lambda>m. \<not> isSystemMessage m) (filter isSystemMessage ys) = []"
    by (simp add: filter_empty_conv)
  show ?thesis
    using assms a b by (simp add: windowMessages_on)
qed

lemma windowMessages_idem: "windowMessages n (windowMessages n ys) = windowMessages n ys"
proof (cases "0 < n \<and> n < int (length ys)")
  case False
  then have "windowMessages n ys = ys" by (intro windowMessages_off) linarith
  then show ?thesis by simp
next
  case on: True
  let ?w = "windowMessages n ys"
  show ?thesis
  proof (cases "int (length (filter isSystemMessage ys)) < n")
    case True
    then have "int (length ?w) = n" using on by (simp add: windowMessages_fills)
    then show ?thesis by (simp add: windowMessages_off)
  next
    case False
    have w: "?w = filter isSystemMessage ys @ filter (\<lambda>m. \<not> isSystemMessage m) ys"
      using on False by (simp add: windowMessages_on)
    then have len: "length ?w = length ys"
      using length_system_split[of ys] by simp
    have sys: "filter isSystemMessage ?w = filter isSystemMessage ys"
      by (rule filter_system_window)
    have non: "filter (\<lambda>m. \<not> isSystemMessage m) ?w = filter (\<lambda>m. \<not> isSystemMessage m) ys"
      using on False by (simp add: filter_nonsystem_window_on)
    have "windowMessages n ?w
            = filter isSystemMessage ?w @ filter (\<lambda>m. \<not> isSystemMessage m) ?w"
      using on False len sys by (simp add: windowMessages_on)
    then show ?thesis using sys non w by simp
  qed
qed


lemma windowOf_resolved [simp]:
  "windowSize (windowOf n) = n" "msgCap (windowOf n) = 20000" "toolCap (windowOf n) = 8000"
  by (simp_all add: windowOf_def windowSize_def msgCap_def toolCap_def orDefault_def)

lemma afterDedupe_sample:
  "afterDedupe [message ''system'' (JStr (utf16 ''A'')), message ''user'' (JStr (utf16 ''1'')),
                message ''assistant'' (JStr (utf16 ''2'')), message ''user'' (JStr (utf16 ''3'')),
                message ''assistant'' (JStr (utf16 ''4''))] (windowOf n)
     = [message ''system'' (JStr (utf16 ''A'')), message ''user'' (JStr (utf16 ''1'')),
        message ''assistant'' (JStr (utf16 ''2'')), message ''user'' (JStr (utf16 ''3'')),
        message ''assistant'' (JStr (utf16 ''4''))]"
  by (simp add: afterDedupe_def compactMessage_short dedupeSystem_Cons del: dedupeSystem.simps(2))

lemma afterDedupe_two_system:
  "afterDedupe [message ''system'' (JStr (utf16 ''A'')), message ''system'' (JStr (utf16 ''B'')),
                message ''user'' (JStr (utf16 ''1''))] (windowOf n)
     = [message ''system'' (JStr (utf16 ''A'')), message ''system'' (JStr (utf16 ''B'')),
        message ''user'' (JStr (utf16 ''1''))]"
  by (simp add: afterDedupe_def compactMessage_short dedupeSystem_Cons del: dedupeSystem.simps(2))

text \<open>
  Claim C4, as amended. When \<^verbatim>\<open>maxMessages\<close> is positive and fewer messages than remain
  after truncation and deduplication, \<open>compactMessages\<close> returns all system messages, in
  their order, followed by a tail slice of the other messages, in their order; when there
  are fewer system messages than \<^verbatim>\<open>maxMessages\<close> the tail is the most recent
  (maxMessages - systemCount) of the other messages and the result has exactly
  \<^verbatim>\<open>maxMessages\<close> messages. When \<^verbatim>\<open>maxMessages\<close> is zero or negative, or not exceeded,
  the messages that remain are returned as they are.
\<close>

theorem window_keeps_system_and_recent:
  "(0 < windowSize options \<and> windowSize options < int (length (afterDedupe ms options)) \<longrightarrow>
      (\<exists>k. compactMessages ms options
             = filter isSystemMessage (afterDedupe ms options)
               @ drop k (filter (\<lambda>m. \<not> isSystemMessage m) (afterDedupe ms options)))
      \<and> (int (length (filter isSystemMessage (afterDedupe ms options))) < windowSize options \<longrightarrow>
            compactMessages ms options
              = filter isSystemMessage (afterDedupe ms options)
                @ drop (length (filter (\<lambda>m. \<not> isSystemMessage m) (afterDedupe ms options))
                          - nat (windowSize options
                                   - int (length (filter isSystemMessage (afterDedupe ms options)))))
                       (filter (\<lambda>m. \<not> isSystemMessage m) (afterDedupe ms options))
          \<and> int (length (compactMessages ms options)) = windowSize options
          \<and> int (length (filter (\<lambda>m. \<not> isSystemMessage m) (compactMessages ms options)))
                = windowSize options - int (length (filter isSystemMessage (afterDedupe ms options)))))
   \<and> (windowSize options \<le> 0 \<or> int (length (afterDedupe ms options)) \<le> windowSize options
        \<longrightarrow> compactMessages ms options = afterDedupe ms options)"
proof (intro conjI impI)
  let ?ys = "afterDedupe ms options"
  let ?n = "windowSize options"
  assume "?n \<le> 0 \<or> int (length ?ys) \<le> ?n"
  then show "compactMessages ms options = ?ys"
    by (simp add: compactMessages_unfold windowMessages_off)
next
  let ?ys = "afterDedupe ms options"
  let ?n = "windowSize options"
  assume on: "0 < ?n \<and> ?n < int (length ?ys)"
  have "windowMessages ?n ?ys = filter isSystemMessage ?ys @ drop 0 (filter (\<lambda>m. \<not> isSystemMessage m) ?ys)
        \<or> windowMessages ?n ?ys = filter isSystemMessage ?ys
              @ drop (length (filter (\<lambda>m. \<not> isSystemMessage m) ?ys)
                        - nat (?n - int (length (filter isSystemMessage ?ys))))
                     (filter (\<lambda>m. \<not> isSystemMessage m) ?ys)"
    using on windowMessages_on[of ?n ?ys] by (cases "int (length (filter isSystemMessage ?ys)) < ?n") simp_all
  then show "\<exists>k. compactMessages ms options
             = filter isSystemMessage ?ys @ drop k (filter (\<lambda>m. \<not> isSystemMessage m) ?ys)"
    unfolding compactMessages_unfold by blast
next
  let ?ys = "afterDedupe ms options"
  let ?n = "windowSize options"
  assume on: "0 < ?n \<and> ?n < int (length ?ys)"
    and few: "int (length (filter isSystemMessage ?ys)) < ?n"
  show "compactMessages ms options
              = filter isSystemMessage ?ys
                @ drop (length (filter (\<lambda>m. \<not> isSystemMessage m) ?ys)
                          - nat (?n - int (length (filter isSystemMessage ?ys))))
                       (filter (\<lambda>m. \<not> isSystemMessage m) ?ys)"
    using on few by (simp add: compactMessages_unfold windowMessages_on)
next
  let ?ys = "afterDedupe ms options"
  let ?n = "windowSize options"
  assume on: "0 < ?n \<and> ?n < int (length ?ys)"
    and few: "int (length (filter isSystemMessage ?ys)) < ?n"
  show "int (length (compactMessages ms options)) = ?n"
    using on few by (simp add: compactMessages_unfold windowMessages_fills)
next
  let ?ys = "afterDedupe ms options"
  let ?n = "windowSize options"
  assume on: "0 < ?n \<and> ?n < int (length ?ys)"
    and few: "int (length (filter isSystemMessage ?ys)) < ?n"
  have total: "int (length (windowMessages ?n ?ys)) = ?n"
    using on few by (simp add: windowMessages_fills)
  have "length (filter isSystemMessage (windowMessages ?n ?ys))
          + length (filter (\<lambda>m. \<not> isSystemMessage m) (windowMessages ?n ?ys))
        = length (windowMessages ?n ?ys)"
    by (rule length_system_split)
  then show "int (length (filter (\<lambda>m. \<not> isSystemMessage m) (compactMessages ms options)))
                = ?n - int (length (filter isSystemMessage ?ys))"
    using total by (simp add: compactMessages_unfold filter_system_window)
qed

theorem window_keeps_system_and_recent_witness:
  "(0::int) < 3
   \<and> (3::int) < int (length (afterDedupe
         [message ''system'' (JStr (utf16 ''A'')), message ''user'' (JStr (utf16 ''1'')),
          message ''assistant'' (JStr (utf16 ''2'')), message ''user'' (JStr (utf16 ''3'')),
          message ''assistant'' (JStr (utf16 ''4''))] (windowOf 3)))
   \<and> compactMessages
         [message ''system'' (JStr (utf16 ''A'')), message ''user'' (JStr (utf16 ''1'')),
          message ''assistant'' (JStr (utf16 ''2'')), message ''user'' (JStr (utf16 ''3'')),
          message ''assistant'' (JStr (utf16 ''4''))] (windowOf 3)
       = [message ''system'' (JStr (utf16 ''A'')), message ''user'' (JStr (utf16 ''3'')),
          message ''assistant'' (JStr (utf16 ''4''))]
   \<and> compactMessages
         [message ''system'' (JStr (utf16 ''A'')), message ''user'' (JStr (utf16 ''1'')),
          message ''assistant'' (JStr (utf16 ''2'')), message ''user'' (JStr (utf16 ''3'')),
          message ''assistant'' (JStr (utf16 ''4''))] (windowOf 5)
       = [message ''system'' (JStr (utf16 ''A'')), message ''user'' (JStr (utf16 ''1'')),
          message ''assistant'' (JStr (utf16 ''2'')), message ''user'' (JStr (utf16 ''3'')),
          message ''assistant'' (JStr (utf16 ''4''))]"
  using window_keeps_system_and_recent[of "windowOf 3"
          "[message ''system'' (JStr (utf16 ''A'')), message ''user'' (JStr (utf16 ''1'')),
            message ''assistant'' (JStr (utf16 ''2'')), message ''user'' (JStr (utf16 ''3'')),
            message ''assistant'' (JStr (utf16 ''4''))]"]
    window_keeps_system_and_recent[of "windowOf 5"
          "[message ''system'' (JStr (utf16 ''A'')), message ''user'' (JStr (utf16 ''1'')),
            message ''assistant'' (JStr (utf16 ''2'')), message ''user'' (JStr (utf16 ''3'')),
            message ''assistant'' (JStr (utf16 ''4''))]"]
  by (simp add: afterDedupe_sample)

text \<open>
  With \<^verbatim>\<open>maxMessages = 0\<close> two messages remain, more than 0, and both are returned: the
  guard \<^verbatim>\<open>maxMessages > 0\<close> switches the window off. The claim as worded would keep
  max(0, 0 - 1) = 0 of the messages that are not system messages.
\<close>

theorem window_zero_counterexample:
  "windowSize (windowOf 0) < int (length (afterDedupe
       [message ''system'' (JStr (utf16 ''A'')), message ''user'' (JStr (utf16 ''1''))] (windowOf 0)))
   \<and> compactMessages [message ''system'' (JStr (utf16 ''A'')), message ''user'' (JStr (utf16 ''1''))]
        (windowOf 0)
       = [message ''system'' (JStr (utf16 ''A'')), message ''user'' (JStr (utf16 ''1''))]
   \<and> length (filter (\<lambda>m. \<not> isSystemMessage m)
         (compactMessages [message ''system'' (JStr (utf16 ''A'')), message ''user'' (JStr (utf16 ''1''))]
            (windowOf 0))) = 1
   \<and> nat (max 0 (windowSize (windowOf 0) - int (length (filter isSystemMessage (afterDedupe
       [message ''system'' (JStr (utf16 ''A'')), message ''user'' (JStr (utf16 ''1''))] (windowOf 0)))))) = 0"
proof -
  have a: "afterDedupe [message ''system'' (JStr (utf16 ''A'')), message ''user'' (JStr (utf16 ''1''))]
             (windowOf 0)
           = [message ''system'' (JStr (utf16 ''A'')), message ''user'' (JStr (utf16 ''1''))]"
    by (simp add: afterDedupe_def compactMessage_short dedupeSystem_Cons del: dedupeSystem.simps(2))
  show ?thesis
    by (simp add: compactMessages_unfold a windowMessages_off)
qed

text \<open>
  The case the amended claim leaves open. With as many system messages as
  \<^verbatim>\<open>maxMessages\<close> or more, \<^verbatim>\<open>Math.max(0, ...)\<close> is 0 and \<^verbatim>\<open>nonSystem.slice(-0)\<close> is
  \<^verbatim>\<open>nonSystem.slice(0)\<close>: every other message is kept, behind the system messages.
\<close>

lemma window_minus_zero_keeps_all:
  "compactMessages [message ''system'' (JStr (utf16 ''A'')), message ''system'' (JStr (utf16 ''B'')),
                    message ''user'' (JStr (utf16 ''1''))] (windowOf 1)
     = [message ''system'' (JStr (utf16 ''A'')), message ''system'' (JStr (utf16 ''B'')),
        message ''user'' (JStr (utf16 ''1''))]"
  by (simp add: compactMessages_unfold afterDedupe_two_system windowMessages_on)

lemma window_many_system:
  assumes "0 < n" and "n < int (length ys)" and "n \<le> int (length (filter isSystemMessage ys))"
  shows "windowMessages n ys = filter isSystemMessage ys @ filter (\<lambda>m. \<not> isSystemMessage m) ys"
  using assms by (simp add: windowMessages_on)

section \<open>Idempotence\<close>

lemma propOf_update_same [simp]: "propOf (JObj (AList.update k v kvs)) k = v"
  by (simp add: update_conv')

lemma propOf_update_other [simp]: "k' \<noteq> k \<Longrightarrow> propOf (JObj (AList.update k v kvs)) k' = propOf (JObj kvs) k'"
  by (simp add: update_conv')

lemma compactBlock_idem:
  assumes "47 \<le> cap"
  shows "compactBlock cap (compactBlock cap b) = compactBlock cap b"
proof (cases "\<exists>kvs t. b = JObj kvs \<and> propOf b (utf16 ''text'') = JStr t \<and> cap < int (length t)")
  case True
  then obtain kvs t where b: "b = JObj kvs" "propOf b (utf16 ''text'') = JStr t" "cap < int (length t)"
    by blast
  then have first: "compactBlock cap b = JObj (AList.update (utf16 ''text'') (JStr (truncateString t cap)) kvs)"
    by (simp add: compactBlock_def)
  have "int (length (truncateString t cap)) = cap"
    using assms b(3) truncateString_long(2)[of cap t] by simp
  then show ?thesis
    unfolding first by (simp add: compactBlock_def update_conv')
next
  case False
  then have "compactBlock cap b = b"
    by (cases b) (auto simp: compactBlock_def split: jsval.splits option.splits)
  then show ?thesis by simp
qed

lemma compactContent_idem:
  assumes "47 \<le> mm" and "47 \<le> mt"
  shows "compactContent mm mt (compactContent mm mt c tool) tool = compactContent mm mt c tool"
  using assms
  by (cases c) (simp_all add: compactContent_def truncateString_idem compactBlock_idem)

lemma compactContent_defined:
  "c \<noteq> JUndefined \<Longrightarrow> compactContent mm mt c tool \<noteq> JUndefined"
  by (cases c) (simp_all add: compactContent_def)

lemma compactMessage_idem:
  assumes "47 \<le> mm" and "47 \<le> mt"
  shows "compactMessage mm mt (compactMessage mm mt m) = compactMessage mm mt m"
proof (cases m)
  case (JObj kvs)
  let ?c = "propOf m (utf16 ''content'')"
  let ?tool = "isToolRole (propOf m (utf16 ''role''))"
  let ?new = "compactContent mm mt ?c ?tool"
  show ?thesis
  proof (cases "?c = JUndefined \<or> sameReference ?new ?c")
    case True
    then have "compactMessage mm mt m = m"
      using JObj by (auto simp: compactMessage_def Let_def)
    then show ?thesis by simp
  next
    case False
    then have first: "compactMessage mm mt m = JObj (AList.update (utf16 ''content'') ?new kvs)"
      using JObj by (simp add: compactMessage_def Let_def)
    let ?m' = "JObj (AList.update (utf16 ''content'') ?new kvs)"
    have role: "propOf ?m' (utf16 ''role'') = propOf m (utf16 ''role'')"
      using JObj by (simp add: update_conv')
    have content: "propOf ?m' (utf16 ''content'') = ?new"
      by (simp add: update_conv')
    have defined: "?new \<noteq> JUndefined"
      using False by (simp add: compactContent_defined)
    have again: "compactContent mm mt ?new ?tool = ?new"
      using assms by (rule compactContent_idem)
    have "compactMessage mm mt ?m' = ?m'"
      unfolding compactMessage_def Let_def role content again
      using defined by simp
    then show ?thesis using first by simp
  qed
qed (simp_all add: compactMessage_def)

lemma map_fixed: "(\<And>x. x \<in> set xs \<Longrightarrow> f x = x) \<Longrightarrow> map f xs = xs"
  by (induction xs) simp_all

lemma dedupeSystem_fresh:
  "distinct (map dedupeKey (filter isSystemMessage (dedupeSystem seen ms)))
   \<and> sysKeys (dedupeSystem seen ms) \<inter> seen = {}
   \<and> sysKeys (dedupeSystem seen ms) \<subseteq> sysKeys ms"
proof (induction ms arbitrary: seen)
  case Nil
  show ?case by simp
next
  case (Cons m ms)
  show ?case
  proof (cases "isSystemMessage m")
    case False
    then show ?thesis
      using Cons.IH[of seen] by (simp add: dedupeSystem_Cons del: dedupeSystem.simps(2))
  next
    case sys: True
    show ?thesis
    proof (cases "dedupeKey m \<in> seen")
      case True
      then show ?thesis
        using sys Cons.IH[of seen] by (auto simp add: dedupeSystem_Cons simp del: dedupeSystem.simps(2))
    next
      case False
      have ih: "distinct (map dedupeKey (filter isSystemMessage (dedupeSystem (insert (dedupeKey m) seen) ms)))"
        "sysKeys (dedupeSystem (insert (dedupeKey m) seen) ms) \<inter> insert (dedupeKey m) seen = {}"
        "sysKeys (dedupeSystem (insert (dedupeKey m) seen) ms) \<subseteq> sysKeys ms"
        using Cons.IH[of "insert (dedupeKey m) seen"] by simp_all
      have notin: "dedupeKey m \<notin> sysKeys (dedupeSystem (insert (dedupeKey m) seen) ms)"
        using ih(2) by blast
      have img: "dedupeKey ` set (filter isSystemMessage (dedupeSystem (insert (dedupeKey m) seen) ms))
                   = sysKeys (dedupeSystem (insert (dedupeKey m) seen) ms)"
        by (auto simp: sysKeys_def)
      have step: "dedupeSystem seen (m # ms) = m # dedupeSystem (insert (dedupeKey m) seen) ms"
        using sys False by (simp add: dedupeSystem_Cons del: dedupeSystem.simps(2))
      show ?thesis
        unfolding step using sys False ih notin img by auto
    qed
  qed
qed

lemma dedupeSystem_id:
  assumes "distinct (map dedupeKey (filter isSystemMessage ys))" and "sysKeys ys \<inter> seen = {}"
  shows "dedupeSystem seen ys = ys"
  using assms
proof (induction ys arbitrary: seen)
  case Nil
  show ?case by simp
next
  case (Cons m ms)
  show ?case
  proof (cases "isSystemMessage m")
    case False
    then show ?thesis
      using Cons by (simp add: dedupeSystem_Cons del: dedupeSystem.simps(2))
  next
    case sys: True
    have notseen: "dedupeKey m \<notin> seen"
      using Cons.prems(2) sys by auto
    have d: "distinct (map dedupeKey (filter isSystemMessage ms))"
      and fresh: "dedupeKey m \<notin> dedupeKey ` set (filter isSystemMessage ms)"
      using Cons.prems(1) sys by simp_all
    have "dedupeKey ` set (filter isSystemMessage ms) = sysKeys ms"
      by (auto simp: sysKeys_def)
    with fresh have "sysKeys ms \<inter> insert (dedupeKey m) seen = {}"
      using Cons.prems(2) sys by auto
    with d have "dedupeSystem (insert (dedupeKey m) seen) ms = ms"
      by (rule Cons.IH)
    then show ?thesis
      using sys notseen by (simp add: dedupeSystem_Cons del: dedupeSystem.simps(2))
  qed
qed

lemma dedupeSystem_window_dedupeSystem:
  "dedupeSystem {} (windowMessages n (dedupeSystem {} xs)) = windowMessages n (dedupeSystem {} xs)"
proof (rule dedupeSystem_id)
  show "distinct (map dedupeKey (filter isSystemMessage (windowMessages n (dedupeSystem {} xs))))"
    using dedupeSystem_fresh[of "{}" xs] by (simp add: filter_system_window)
  show "sysKeys (windowMessages n (dedupeSystem {} xs)) \<inter> {} = {}"
    by simp
qed

lemma compactMessages_idem:
  assumes "47 \<le> msgCap opts" and "47 \<le> toolCap opts"
  shows "compactMessages (compactMessages ms opts) opts = compactMessages ms opts"
proof -
  let ?f = "compactMessage (msgCap opts) (toolCap opts)"
  let ?r = "compactMessages ms opts"
  have fixed: "?f x = x" if "x \<in> set ?r" for x
  proof -
    from that obtain y where "x = ?f y"
      using set_compactMessages[of ms opts] by blast
    then show ?thesis using assms by (simp add: compactMessage_idem)
  qed
  then have m: "map ?f ?r = ?r" by (rule map_fixed)
  have r: "?r = windowMessages (windowSize opts) (dedupeSystem {} (map ?f ms))"
    by (simp add: compactMessages_unfold afterDedupe_def)
  have "compactMessages ?r opts = windowMessages (windowSize opts) (dedupeSystem {} (map ?f ?r))"
    by (simp add: compactMessages_unfold afterDedupe_def)
  also have "\<dots> = windowMessages (windowSize opts) (dedupeSystem {} ?r)"
    by (simp only: m)
  also have "dedupeSystem {} ?r = ?r"
    unfolding r by (rule dedupeSystem_window_dedupeSystem)
  also have "windowMessages (windowSize opts) ?r = ?r"
    unfolding r by (rule windowMessages_idem)
  finally show ?thesis .
qed


lemma truncate_hello_world: "truncateString (utf16 ''hello world'') 10 = TRUNC_SUFFIX"
  by (simp add: truncateString_def sliceTo_def)

lemma truncate_marker: "truncateString TRUNC_SUFFIX 10 = take 10 TRUNC_SUFFIX @ TRUNC_SUFFIX"
  by (simp add: truncateString_def sliceTo_def)

lemma compactMessage_user_string:
  "compactMessage mm mt (message ''user'' (JStr s))
     = (if truncateString s mm = s then message ''user'' (JStr s)
        else message ''user'' (JStr (truncateString s mm)))"
  by (simp add: compactMessage_def compactContent_def sameReference_def isToolRole_def
      message_def Let_def)

text \<open>
  Claim C2 holds that a second pass changes nothing. With \<^verbatim>\<open>maxMessageChars = 10\<close>, below
  the length of the marker, \<^verbatim>\<open>text.slice(0, limit - TRUNC_SUFFIX.length)\<close> has a negative
  end: the first pass turns the 11 characters of \<^verbatim>\<open>hello world\<close> into the 47 of the
  marker, and the second pass turns those into 57, the first 10 of the marker and the
  marker again.
\<close>

theorem compactMessages_small_cap_not_idempotent:
  "compactMessages [message ''user'' (JStr (utf16 ''hello world''))] (messageCapOf 10)
     = [message ''user'' (JStr TRUNC_SUFFIX)]
   \<and> compactMessages
         (compactMessages [message ''user'' (JStr (utf16 ''hello world''))] (messageCapOf 10))
         (messageCapOf 10)
     = [message ''user'' (JStr (take 10 TRUNC_SUFFIX @ TRUNC_SUFFIX))]
   \<and> compactMessages
         (compactMessages [message ''user'' (JStr (utf16 ''hello world''))] (messageCapOf 10))
         (messageCapOf 10)
     \<noteq> compactMessages [message ''user'' (JStr (utf16 ''hello world''))] (messageCapOf 10)
   \<and> length (take 10 TRUNC_SUFFIX @ TRUNC_SUFFIX) = 57"
proof -
  have ne1: "TRUNC_SUFFIX \<noteq> utf16 ''hello world''"
    by (simp add: TRUNC_SUFFIX_def utf16_def)
  have len: "length (take 10 TRUNC_SUFFIX @ TRUNC_SUFFIX) = 57" by simp
  have ne2: "take 10 TRUNC_SUFFIX @ TRUNC_SUFFIX \<noteq> TRUNC_SUFFIX"
  proof
    assume "take 10 TRUNC_SUFFIX @ TRUNC_SUFFIX = TRUNC_SUFFIX"
    then have "length (take 10 TRUNC_SUFFIX @ TRUNC_SUFFIX) = length TRUNC_SUFFIX"
      by (rule arg_cong)
    then show False by simp
  qed
  have one: "compactMessages [message ''user'' (JStr (utf16 ''hello world''))] (messageCapOf 10)
     = [message ''user'' (JStr TRUNC_SUFFIX)]"
    using ne1 by (simp add: compactMessages_single compactMessage_user_string truncate_hello_world)
  have two: "compactMessages [message ''user'' (JStr TRUNC_SUFFIX)] (messageCapOf 10)
     = [message ''user'' (JStr (take 10 TRUNC_SUFFIX @ TRUNC_SUFFIX))]"
    using ne2 by (simp add: compactMessages_single compactMessage_user_string truncate_marker)
  have ne3: "[message ''user'' (JStr (take 10 TRUNC_SUFFIX @ TRUNC_SUFFIX))]
               \<noteq> [message ''user'' (JStr TRUNC_SUFFIX)]"
    using ne2 by (simp add: message_def)
  show ?thesis
    unfolding one two using ne3 len by (intro conjI) (rule refl, rule refl, assumption, assumption)
qed

text \<open>
  When both caps are at least the length of the marker, a second pass with the same
  options returns its input: no text is truncated again, no system message is dropped
  and the window takes nothing more.
\<close>

theorem compactMessages_idempotent_when_marker_fits:
  "int (length TRUNC_SUFFIX) \<le> msgCap options \<and> int (length TRUNC_SUFFIX) \<le> toolCap options
     \<longrightarrow> compactMessages (compactMessages ms options) options = compactMessages ms options"
  by (simp add: compactMessages_idem)

theorem compactMessages_idempotent_when_marker_fits_witness:
  "int (length TRUNC_SUFFIX) \<le> msgCap defaultOptions
   \<and> int (length TRUNC_SUFFIX) \<le> toolCap defaultOptions
   \<and> compactMessages [message ''user'' (JStr (replicate 25000 97))] defaultOptions
        = [message ''user'' (JStr (replicate 19953 97 @ TRUNC_SUFFIX))]
   \<and> compactMessages (compactMessages [message ''user'' (JStr (replicate 25000 97))] defaultOptions)
          defaultOptions
        = [message ''user'' (JStr (replicate 19953 97 @ TRUNC_SUFFIX))]"
proof -
  have once: "compactMessages [message ''user'' (JStr (replicate 25000 97))] defaultOptions
        = [message ''user'' (JStr (replicate 19953 97 @ TRUNC_SUFFIX))]"
    by (simp add: compactMessages_single compactMessage_user_string truncateString_def sliceTo_def)
  show ?thesis
    using compactMessages_idempotent_when_marker_fits[of defaultOptions
        "[message ''user'' (JStr (replicate 25000 97))]"] once
    by simp
qed

end
